theory Spec2Isabelle
  imports Main "HOL-Library.Char_ord" "HOL-Library.List_Lexorder" "HOL-Library.Multiset"
begin

section \<open>Values\<close>

text \<open>
  A cell of a pandas table. The readers of pandas deliver integers, text and the missing
  value NaN; floating point cells other than NaN are outside this model. Text is a list of
  bytes (UTF-8), whose lexicographic order is the order of Python's code points.
\<close>

datatype cell = NaN | IntV int | StrV string

text \<open>
  The values the handlers of \<^verbatim>\<open>main.py\<close> build and receive: Python's None, bool,
  int, str, the float NaN, list and dict. A dict is an association list in insertion
  order, as Python's dict is.
\<close>

datatype pyval =
    PNone
  | PBool bool
  | PInt int
  | PStr string
  | PNaN
  | PList "pyval list"
  | PDict "(pyval \<times> pyval) list"

datatype error =
    UnsupportedFormat
  | ParserError string
  | KeyError string
  | DuplicateColumn string
  | IndexError
  | AttributeError
  | TypeError
  | NoSelectedFile

fun of_cell :: "cell \<Rightarrow> pyval" where
  "of_cell NaN = PNaN"
| "of_cell (IntV i) = PInt i"
| "of_cell (StrV s) = PStr s"

subsection \<open>Python's str on a cell\<close>

definition digit_char :: "nat \<Rightarrow> char" where
  "digit_char d = char_of (48 + d)"

fun str_nat :: "nat \<Rightarrow> string" where
  "str_nat n = (if n < 10 then [digit_char n] else str_nat (n div 10) @ [digit_char (n mod 10)])"

declare str_nat.simps [simp del]

definition str_int :: "int \<Rightarrow> string" where
  "str_int i = (if i < 0 then CHR ''-'' # str_nat (nat (- i)) else str_nat (nat i))"

fun py_str :: "cell \<Rightarrow> string" where
  "py_str (StrV s) = s"
| "py_str (IntV i) = str_int i"
| "py_str NaN = ''nan''"

subsection \<open>Python's truth value\<close>

fun truthy :: "pyval \<Rightarrow> bool" where
  "truthy PNone = False"
| "truthy (PBool b) = b"
| "truthy (PInt i) = (i \<noteq> 0)"
| "truthy (PStr s) = (s \<noteq> [])"
| "truthy PNaN = True"
| "truthy (PList xs) = (xs \<noteq> [])"
| "truthy (PDict kvs) = (kvs \<noteq> [])"

subsection \<open>str.endswith, str.strip and str.lower\<close>

definition endswith :: "string \<Rightarrow> string \<Rightarrow> bool" where
  "endswith s suf = (length suf \<le> length s \<and> drop (length s - length suf) s = suf)"

definition startswith :: "string \<Rightarrow> string \<Rightarrow> bool" where
  "startswith s pre = (take (length pre) s = pre)"

text \<open>
  The characters that \<^verbatim>\<open>str.strip()\<close> removes, each as its bytes in UTF-8: the code
  points on which \<^verbatim>\<open>str.isspace\<close> holds, which are U+0009 to U+000D, U+001C to U+0020,
  U+0085, U+00A0, U+1680, U+2000 to U+200A, U+2028, U+2029, U+202F, U+205F and U+3000.
\<close>

definition whitespace :: "string list" where
  "whitespace =
     [[CHR 0x09], [CHR 0x0A], [CHR 0x0B], [CHR 0x0C], [CHR 0x0D],
      [CHR 0x1C], [CHR 0x1D], [CHR 0x1E], [CHR 0x1F], [CHR 0x20],
      [CHR 0xC2, CHR 0x85], [CHR 0xC2, CHR 0xA0], [CHR 0xE1, CHR 0x9A, CHR 0x80],
      [CHR 0xE2, CHR 0x80, CHR 0x80], [CHR 0xE2, CHR 0x80, CHR 0x81],
      [CHR 0xE2, CHR 0x80, CHR 0x82], [CHR 0xE2, CHR 0x80, CHR 0x83],
      [CHR 0xE2, CHR 0x80, CHR 0x84], [CHR 0xE2, CHR 0x80, CHR 0x85],
      [CHR 0xE2, CHR 0x80, CHR 0x86], [CHR 0xE2, CHR 0x80, CHR 0x87],
      [CHR 0xE2, CHR 0x80, CHR 0x88], [CHR 0xE2, CHR 0x80, CHR 0x89],
      [CHR 0xE2, CHR 0x80, CHR 0x8A], [CHR 0xE2, CHR 0x80, CHR 0xA8],
      [CHR 0xE2, CHR 0x80, CHR 0xA9], [CHR 0xE2, CHR 0x80, CHR 0xAF],
      [CHR 0xE2, CHR 0x81, CHR 0x9F], [CHR 0xE3, CHR 0x80, CHR 0x80]]"

text \<open>
  Removing leading characters of a set for as long as the text starts with one of them.
  In UTF-8 no character is a prefix of another and a character ends where its bytes end,
  so that removing the bytes of whitespace characters from either end of a text removes
  these characters and nothing else.
\<close>

function strip_prefixes :: "string list \<Rightarrow> string \<Rightarrow> string" where
  "strip_prefixes ws s =
     (case find (\<lambda>w. w \<noteq> [] \<and> take (length w) s = w) ws of
        None \<Rightarrow> s
      | Some w \<Rightarrow> strip_prefixes ws (drop (length w) s))"
  by pat_completeness auto
termination
proof (relation "measure (\<lambda>(ws, s). length s)")
  show "wf (measure (\<lambda>(ws, s). length s))" by simp
next
  fix ws :: "string list" and s w :: string
  assume "find (\<lambda>w. w \<noteq> [] \<and> take (length w) s = w) ws = Some w"
  then have w: "w \<noteq> []" and t: "take (length w) s = w"
    by (auto simp: find_Some_iff)
  have "length w \<le> length s"
  proof (rule ccontr)
    assume n: "\<not> length w \<le> length s"
    then have "take (length w) s = s" by simp
    with t have "s = w" by simp
    with n show False by simp
  qed
  with w show "((ws, drop (length w) s), (ws, s)) \<in> measure (\<lambda>(ws, s). length s)"
    by (cases w) auto
qed

declare strip_prefixes.simps [simp del]

definition lstrip :: "string \<Rightarrow> string" where
  "lstrip s = strip_prefixes whitespace s"

definition rstrip :: "string \<Rightarrow> string" where
  "rstrip s = rev (strip_prefixes (map rev whitespace) (rev s))"

definition strip :: "string \<Rightarrow> string" where
  "strip s = rstrip (lstrip s)"

text \<open>
  Lowering the letters A to Z. Python's \<^verbatim>\<open>str.lower\<close> also lowers letters beyond ASCII,
  but it maps none of them to an ASCII letter other than k, which the four recognized
  names do not contain: \<^verbatim>\<open>c.lower() == m.lower()\<close> for a recognized name \<^verbatim>\<open>m\<close> (line 36)
  holds exactly when the two texts are equal after lowering A to Z.
\<close>

definition lower_char :: "char \<Rightarrow> char" where
  "lower_char c = (let n = (of_char c :: nat) in if 65 \<le> n \<and> n \<le> 90 then char_of (n + 32) else c)"

definition lower :: "string \<Rightarrow> string" where
  "lower s = map lower_char s"

section \<open>Tables\<close>

text \<open>
  A DataFrame: the column labels and the rows, each row with its index label (the
  position in the file, which the reader assigns and every later step keeps).
\<close>

record dataframe =
  columns :: "string list"
  rows :: "(int \<times> cell list) list"

text \<open>A row shorter than the header cannot come out of a reader; its missing cells read as NaN.\<close>

definition cell_at :: "cell list \<Rightarrow> nat \<Rightarrow> cell" where
  "cell_at r j = (if j < length r then r ! j else NaN)"

fun positions :: "string \<Rightarrow> string list \<Rightarrow> nat \<Rightarrow> nat list" where
  "positions name [] j = []"
| "positions name (c # cs) j = (if c = name then j # positions name cs (Suc j) else positions name cs (Suc j))"

text \<open>
  Selecting the one column with a label. pandas raises KeyError for a label that is
  absent. For a label that several columns carry, \<^verbatim>\<open>groupby\<close> raises (the grouper is
  not one-dimensional) and \<^verbatim>\<open>row[label]\<close> yields a nested Series instead of a scalar,
  which is no value of the hierarchy; the model stops with DuplicateColumn in both cases.
\<close>

definition column_index :: "string list \<Rightarrow> string \<Rightarrow> error + nat" where
  "column_index cols name =
     (case positions name cols 0 of
        [] \<Rightarrow> Inl (KeyError name)
      | [j] \<Rightarrow> Inr j
      | _ \<Rightarrow> Inl (DuplicateColumn name))"

definition row_get :: "string list \<Rightarrow> cell list \<Rightarrow> string \<Rightarrow> error + pyval" where
  "row_get cols r name =
     (case column_index cols name of
        Inl e \<Rightarrow> Inl e
      | Inr j \<Rightarrow> Inr (of_cell (cell_at r j)))"

section \<open>parse_file\<close>

text \<open>
  \<^verbatim>\<open>parse_file\<close> (lines 9 to 20). The two readers of pandas are parameters: each takes
  the bytes of the upload and returns a table or the message of the exception it raised.
\<close>

definition strip_columns :: "dataframe \<Rightarrow> dataframe" where
  "strip_columns df = df\<lparr>columns := map strip (columns df)\<rparr>"

definition parse_file ::
  "(string \<Rightarrow> string + dataframe) \<Rightarrow> (string \<Rightarrow> string + dataframe) \<Rightarrow> string \<Rightarrow> string
     \<Rightarrow> error + dataframe" where
  "parse_file read_csv read_excel filename file =
     (if endswith filename ''.csv'' then
        (case read_csv file of Inl msg \<Rightarrow> Inl (ParserError msg) | Inr df \<Rightarrow> Inr (strip_columns df))
      else if endswith filename ''.xls'' \<or> endswith filename ''.xlsx'' then
        (case read_excel file of Inl msg \<Rightarrow> Inl (ParserError msg) | Inr df \<Rightarrow> Inr (strip_columns df))
      else Inl UnsupportedFormat)"

section \<open>clean_data\<close>

definition required :: "string list" where
  "required = [''userId'', ''url'', ''title'', ''content'']"

text \<open>
  The inner loop of lines 35 to 39: the first label that equals \<open>m\<close> up to case is
  renamed to \<open>m\<close> (\<^verbatim>\<open>rename\<close> renames every column carrying that label), and the
  loop stops.
\<close>

fun rename_first :: "string \<Rightarrow> string list \<Rightarrow> string list \<Rightarrow> string list" where
  "rename_first m [] cols = cols"
| "rename_first m (c # cs) cols =
     (if lower c = lower m then map (\<lambda>x. if x = c then m else x) cols
      else rename_first m cs cols)"

definition fillna :: "cell \<Rightarrow> cell" where
  "fillna v = (case v of NaN \<Rightarrow> StrV [] | _ \<Rightarrow> v)"

definition clean_data :: "dataframe \<Rightarrow> dataframe" where
  "clean_data df =
     (let missing = filter (\<lambda>c. c \<notin> set (columns df)) required;
          cols = fold (\<lambda>m cols. rename_first m cols cols) missing (columns df)
      in \<lparr>columns = cols, rows = map (\<lambda>(i, r). (i, map fillna r)) (rows df)\<rparr>)"

section \<open>groupby\<close>

text \<open>
  The order in which pandas sorts the keys of a column that mixes integers and text:
  integers first, in numeric order, then text, in the order of Python's strings; missing
  values last.
\<close>

fun cell_le :: "cell \<Rightarrow> cell \<Rightarrow> bool" where
  "cell_le (IntV i) (IntV j) = (i \<le> j)"
| "cell_le (IntV i) (StrV t) = True"
| "cell_le (IntV i) NaN = True"
| "cell_le (StrV s) (IntV j) = False"
| "cell_le (StrV s) (StrV t) = (s \<le> t)"
| "cell_le (StrV s) NaN = True"
| "cell_le NaN (IntV j) = False"
| "cell_le NaN (StrV t) = False"
| "cell_le NaN NaN = True"

instantiation cell :: linorder
begin

definition less_eq_cell :: "cell \<Rightarrow> cell \<Rightarrow> bool" where
  "less_eq_cell a b = cell_le a b"

definition less_cell :: "cell \<Rightarrow> cell \<Rightarrow> bool" where
  "less_cell a b = (cell_le a b \<and> \<not> cell_le b a)"

instance
proof
  fix x y z :: cell
  show "(x < y) = (x \<le> y \<and> \<not> y \<le> x)"
    by (simp add: less_cell_def less_eq_cell_def)
  show "x \<le> x"
    by (cases x) (simp_all add: less_eq_cell_def)
  show "x \<le> y \<Longrightarrow> y \<le> z \<Longrightarrow> x \<le> z"
    by (cases x; cases y; cases z) (simp_all add: less_eq_cell_def)
  show "x \<le> y \<Longrightarrow> y \<le> x \<Longrightarrow> x = y"
    by (cases x; cases y) (simp_all add: less_eq_cell_def)
  show "x \<le> y \<or> y \<le> x"
    by (cases x; cases y) (auto simp: less_eq_cell_def)
qed

end

text \<open>
  \<^verbatim>\<open>df.groupby(by)\<close> with the defaults of pandas (\<^verbatim>\<open>sort=True, dropna=True\<close>), as the loops
  of the source iterate it: one pair per distinct key that is not NaN, in ascending order
  of the keys, each with the rows carrying that key, in their order in \<open>df\<close> and with
  their index labels.
\<close>

definition groupby :: "dataframe \<Rightarrow> string \<Rightarrow> error + (cell \<times> dataframe) list" where
  "groupby df by =
     (case column_index (columns df) by of
        Inl e \<Rightarrow> Inl e
      | Inr j \<Rightarrow>
          Inr (map (\<lambda>k. (k, df\<lparr>rows := filter (\<lambda>(i, r). cell_at r j = k) (rows df)\<rparr>))
                 (sort (remdups (filter (\<lambda>k. k \<noteq> NaN) (map (\<lambda>(i, r). cell_at r j) (rows df)))))))"

section \<open>transform_to_hierarchy\<close>

text \<open>
  Python's \<^verbatim>\<open>d[k] = v\<close>: the value of a key already present is replaced where it
  stands, a new key is appended. The keys the source stores are text and integers, on
  which Python's equality of keys is equality of values.
\<close>

fun dict_set :: "(pyval \<times> pyval) list \<Rightarrow> pyval \<Rightarrow> pyval \<Rightarrow> (pyval \<times> pyval) list" where
  "dict_set [] k v = [(k, v)]"
| "dict_set ((k', v') # d) k v = (if k' = k then (k, v) # d else (k', v') # dict_set d k v)"

text \<open>Lines 84 to 90: one image per row of the group, appended in the order of the rows.\<close>

fun iterrows_loop ::
  "string list \<Rightarrow> pyval \<Rightarrow> (int \<times> cell list) list \<Rightarrow> pyval list \<Rightarrow> error + pyval list" where
  "iterrows_loop cols prompt_content [] images = Inr images"
| "iterrows_loop cols prompt_content ((idx, row) # rest) images =
     (case row_get cols row ''url'' of
        Inl e \<Rightarrow> Inl e
      | Inr url \<Rightarrow>
          (case (if ''content'' \<in> set cols then row_get cols row ''content'' else Inr prompt_content) of
             Inl e \<Rightarrow> Inl e
           | Inr content \<Rightarrow>
               iterrows_loop cols prompt_content rest
                 (images @ [PDict [(PStr ''url'', url), (PStr ''content'', content),
                                   (PStr ''original_row_index'', PInt idx)]])))"

text \<open>Line 76: the content cell of the first row of the group, or the empty text.\<close>

definition first_content :: "dataframe \<Rightarrow> error + pyval" where
  "first_content prompt_group =
     (if ''content'' \<in> set (columns prompt_group) then
        (case rows prompt_group of
           [] \<Rightarrow> Inl IndexError
         | (idx, row) # rest \<Rightarrow> row_get (columns prompt_group) row ''content'')
      else Inr (PStr []))"

text \<open>
  Lines 70 to 90, the loop over the titles of one user. The source stores the prompt with
  an empty list of images and appends to that list in place; the model builds the list
  and stores the finished prompt, which leaves the same dict.
\<close>

fun grouped_prompts_loop ::
  "(cell \<times> dataframe) list \<Rightarrow> (pyval \<times> pyval) list \<Rightarrow> error + (pyval \<times> pyval) list" where
  "grouped_prompts_loop [] prompts = Inr prompts"
| "grouped_prompts_loop ((title, prompt_group) # rest) prompts =
     (case first_content prompt_group of
        Inl e \<Rightarrow> Inl e
      | Inr prompt_content \<Rightarrow>
          (case iterrows_loop (columns prompt_group) prompt_content (rows prompt_group) [] of
             Inl e \<Rightarrow> Inl e
           | Inr images \<Rightarrow>
               grouped_prompts_loop rest
                 (dict_set prompts (of_cell title)
                    (PDict [(PStr ''title'', of_cell title), (PStr ''content'', prompt_content),
                            (PStr ''images'', PList images)]))))"

text \<open>
  Lines 60 to 90, the loop over the users. As above, the user is stored once its prompts
  are complete; the place of the key in \<open>users_data\<close> is the same.
\<close>

fun grouped_users_loop ::
  "(cell \<times> dataframe) list \<Rightarrow> (pyval \<times> pyval) list \<Rightarrow> error + (pyval \<times> pyval) list" where
  "grouped_users_loop [] users_data = Inr users_data"
| "grouped_users_loop ((user_id, user_group) # rest) users_data =
     (case groupby user_group ''title'' of
        Inl e \<Rightarrow> Inl e
      | Inr grouped_prompts \<Rightarrow>
          (case grouped_prompts_loop grouped_prompts [] of
             Inl e \<Rightarrow> Inl e
           | Inr prompts \<Rightarrow>
               grouped_users_loop rest
                 (dict_set users_data (PStr (py_str user_id))
                    (PDict [(PStr ''userId'', PStr (py_str user_id)),
                            (PStr ''prompts'', PDict prompts)]))))"

definition transform_to_hierarchy :: "dataframe \<Rightarrow> error + pyval" where
  "transform_to_hierarchy df =
     (case groupby df ''userId'' of
        Inl e \<Rightarrow> Inl e
      | Inr grouped_users \<Rightarrow>
          (case grouped_users_loop grouped_users [] of
             Inl e \<Rightarrow> Inl e
           | Inr users_data \<Rightarrow> Inr (PDict users_data)))"

section \<open>export_file: flattening\<close>

text \<open>
  \<^verbatim>\<open>d.get(k, default)\<close> and \<^verbatim>\<open>d.items()\<close> raise AttributeError on a value that is no
  dict; \<^verbatim>\<open>for x in v\<close> runs over the elements of a list, the keys of a dict and the
  characters of a text, and raises TypeError on the other values.
\<close>

definition dict_get :: "pyval \<Rightarrow> string \<Rightarrow> pyval \<Rightarrow> error + pyval" where
  "dict_get d k dflt =
     (case d of
        PDict kvs \<Rightarrow> (case map_of kvs (PStr k) of Some v \<Rightarrow> Inr v | None \<Rightarrow> Inr dflt)
      | _ \<Rightarrow> Inl AttributeError)"

definition dict_items :: "pyval \<Rightarrow> error + (pyval \<times> pyval) list" where
  "dict_items d = (case d of PDict kvs \<Rightarrow> Inr kvs | _ \<Rightarrow> Inl AttributeError)"

definition py_iter :: "pyval \<Rightarrow> error + pyval list" where
  "py_iter v =
     (case v of
        PList xs \<Rightarrow> Inr xs
      | PDict kvs \<Rightarrow> Inr (map fst kvs)
      | PStr s \<Rightarrow> Inr (map (\<lambda>c. PStr [c]) s)
      | _ \<Rightarrow> Inl TypeError)"

text \<open>Lines 134 to 151: the loop over the images of one prompt.\<close>

fun img_loop ::
  "pyval \<Rightarrow> pyval \<Rightarrow> pyval \<Rightarrow> pyval \<Rightarrow> pyval list \<Rightarrow> pyval list \<Rightarrow> error + pyval list" where
  "img_loop reviewed_only user_id title content [] flat_data = Inr flat_data"
| "img_loop reviewed_only user_id title content (img # imgs) flat_data =
     (case dict_get img ''is_defective'' (PBool False) of
        Inl e \<Rightarrow> Inl e
      | Inr is_defective \<Rightarrow>
          (case dict_get img ''review_comment'' (PStr []) of
             Inl e \<Rightarrow> Inl e
           | Inr review_comment \<Rightarrow>
               if truthy reviewed_only \<and> \<not> truthy is_defective \<and> \<not> truthy review_comment
               then img_loop reviewed_only user_id title content imgs flat_data
               else
                 (case dict_get img ''url'' (PStr []) of
                    Inl e \<Rightarrow> Inl e
                  | Inr url \<Rightarrow>
                      img_loop reviewed_only user_id title content imgs
                        (flat_data @
                           [PDict [(PStr ''userId'', user_id), (PStr ''title'', title),
                                   (PStr ''content'', content), (PStr ''url'', url),
                                   (PStr ''is_defective'', is_defective),
                                   (PStr ''review_comment'', review_comment)]]))))"

text \<open>Lines 130 to 151: the loop over the prompts of one user.\<close>

fun prompt_loop ::
  "pyval \<Rightarrow> pyval \<Rightarrow> (pyval \<times> pyval) list \<Rightarrow> pyval list \<Rightarrow> error + pyval list" where
  "prompt_loop reviewed_only user_id [] flat_data = Inr flat_data"
| "prompt_loop reviewed_only user_id ((title, prompt_info) # rest) flat_data =
     (case dict_get prompt_info ''content'' (PStr []) of
        Inl e \<Rightarrow> Inl e
      | Inr content \<Rightarrow>
          (case dict_get prompt_info ''images'' (PList []) of
             Inl e \<Rightarrow> Inl e
           | Inr images \<Rightarrow>
               (case py_iter images of
                  Inl e \<Rightarrow> Inl e
                | Inr imgs \<Rightarrow>
                    (case img_loop reviewed_only user_id title content imgs flat_data of
                       Inl e \<Rightarrow> Inl e
                     | Inr flat_data' \<Rightarrow> prompt_loop reviewed_only user_id rest flat_data'))))"

text \<open>Lines 128 to 151: the loop over the users.\<close>

fun user_loop :: "pyval \<Rightarrow> (pyval \<times> pyval) list \<Rightarrow> pyval list \<Rightarrow> error + pyval list" where
  "user_loop reviewed_only [] flat_data = Inr flat_data"
| "user_loop reviewed_only ((user_id, user_info) # rest) flat_data =
     (case dict_get user_info ''prompts'' (PDict []) of
        Inl e \<Rightarrow> Inl e
      | Inr prompts \<Rightarrow>
          (case dict_items prompts of
             Inl e \<Rightarrow> Inl e
           | Inr items \<Rightarrow>
               (case prompt_loop reviewed_only user_id items flat_data of
                  Inl e \<Rightarrow> Inl e
                | Inr flat_data' \<Rightarrow> user_loop reviewed_only rest flat_data')))"

text \<open>
  Lines 126 to 151 of \<^verbatim>\<open>export_file\<close>: the list \<^verbatim>\<open>flat_data\<close> that is handed to the
  serializer, from the hierarchy and the flag of the request.
\<close>

definition flat_data :: "pyval \<Rightarrow> pyval \<Rightarrow> error + pyval list" where
  "flat_data users_data reviewed_only =
     (case dict_items users_data of
        Inl e \<Rightarrow> Inl e
      | Inr items \<Rightarrow> user_loop reviewed_only items [])"

section \<open>jsonify and request.json\<close>











section \<open>Notions of the specification\<close>

text \<open>
  The extension of a file name, as the specification speaks of it: the text from the last
  dot on, or nothing when the name has no dot.
\<close>

definition extension :: "string \<Rightarrow> string" where
  "extension filename =
     (if CHR ''.'' \<in> set filename
      then CHR ''.'' # rev (takeWhile (\<lambda>c. c \<noteq> CHR ''.'') (rev filename))
      else [])"

text \<open>
  Reading a hierarchy as the data model describes it. \<open>field d k dflt\<close> is the value of
  field \<open>k\<close> of the dict \<open>d\<close>, or \<open>dflt\<close> when \<open>d\<close> has no such field.
\<close>

definition field :: "pyval \<Rightarrow> string \<Rightarrow> pyval \<Rightarrow> pyval" where
  "field d k dflt = (case dict_get d k dflt of Inr v \<Rightarrow> v | Inl e \<Rightarrow> dflt)"

definition users_of :: "pyval \<Rightarrow> (pyval \<times> pyval) list" where
  "users_of h = (case h of PDict us \<Rightarrow> us | _ \<Rightarrow> [])"

definition prompts_of :: "pyval \<Rightarrow> (pyval \<times> pyval) list" where
  "prompts_of user_info = (case field user_info ''prompts'' (PDict []) of PDict ps \<Rightarrow> ps | _ \<Rightarrow> [])"

definition images_of :: "pyval \<Rightarrow> pyval list" where
  "images_of prompt_info = (case field prompt_info ''images'' (PList []) of PList imgs \<Rightarrow> imgs | _ \<Rightarrow> [])"

text \<open>
  The Items of a hierarchy in traversal order (users, then the titles of a user, then the
  images of a title), each with the key of its User, the key of its Group and the Group.
\<close>

definition prompt_items :: "pyval \<Rightarrow> pyval \<times> pyval \<Rightarrow> (pyval \<times> pyval \<times> pyval \<times> pyval) list" where
  "prompt_items user_id = (\<lambda>(title, prompt_info).
     map (\<lambda>img. (user_id, title, prompt_info, img)) (images_of prompt_info))"

definition user_items :: "pyval \<times> pyval \<Rightarrow> (pyval \<times> pyval \<times> pyval \<times> pyval) list" where
  "user_items = (\<lambda>(user_id, user_info). concat (map (prompt_items user_id) (prompts_of user_info)))"

definition items_of :: "pyval \<Rightarrow> (pyval \<times> pyval \<times> pyval \<times> pyval) list" where
  "items_of h = concat (map user_items (users_of h))"

fun is_dict :: "pyval \<Rightarrow> bool" where
  "is_dict (PDict kvs) = True"
| "is_dict _ = False"

fun is_list :: "pyval \<Rightarrow> bool" where
  "is_list (PList xs) = True"
| "is_list _ = False"

fun is_bool :: "pyval \<Rightarrow> bool" where
  "is_bool (PBool b) = True"
| "is_bool _ = False"

fun is_str :: "pyval \<Rightarrow> bool" where
  "is_str (PStr s) = True"
| "is_str _ = False"

text \<open>
  A hierarchy of the shape of the data model: a dict of users, each a dict whose prompts
  (when present) are a dict of groups, each a dict whose images (when present) are a list
  of dicts.
\<close>

definition wf_prompt :: "pyval \<times> pyval \<Rightarrow> bool" where
  "wf_prompt = (\<lambda>(title, prompt_info).
     is_dict prompt_info \<and> is_list (field prompt_info ''images'' (PList []))
     \<and> list_all is_dict (images_of prompt_info))"

definition wf_user :: "pyval \<times> pyval \<Rightarrow> bool" where
  "wf_user = (\<lambda>(user_id, user_info).
     is_dict user_info \<and> is_dict (field user_info ''prompts'' (PDict []))
     \<and> list_all wf_prompt (prompts_of user_info))"

definition wf_hierarchy :: "pyval \<Rightarrow> bool" where
  "wf_hierarchy h = (is_dict h \<and> list_all wf_user (users_of h))"

text \<open>
  The FlatRecord of an Item as the specification gives it: the keys of the User and the
  Group, the content of the Group, the url of the Item and its two annotation fields with
  their defaults.
\<close>

definition flat_record :: "pyval \<times> pyval \<times> pyval \<times> pyval \<Rightarrow> pyval" where
  "flat_record = (\<lambda>(user_id, title, prompt_info, img).
     PDict [(PStr ''userId'', user_id), (PStr ''title'', title),
            (PStr ''content'', field prompt_info ''content'' (PStr [])),
            (PStr ''url'', field img ''url'' (PStr [])),
            (PStr ''is_defective'', field img ''is_defective'' (PBool False)),
            (PStr ''review_comment'', field img ''review_comment'' (PStr []))])"

text \<open>
  The reviewed-only predicate in the words of the specification, and the typing of the
  annotation fields in the data model (a boolean and a text).
\<close>

definition reviewed :: "pyval \<times> pyval \<times> pyval \<times> pyval \<Rightarrow> bool" where
  "reviewed = (\<lambda>(user_id, title, prompt_info, img).
     field img ''is_defective'' (PBool False) = PBool True
     \<or> field img ''review_comment'' (PStr []) \<noteq> PStr [])"

definition typed_annotations :: "pyval \<times> pyval \<times> pyval \<times> pyval \<Rightarrow> bool" where
  "typed_annotations = (\<lambda>(user_id, title, prompt_info, img).
     is_bool (field img ''is_defective'' (PBool False))
     \<and> is_str (field img ''review_comment'' (PStr [])))"

text \<open>
  Scenario A of the specification after the annotation step of scenario B: one user, one
  group with content \<^verbatim>\<open>desc\<close>, two images, the second with its own empty content and
  marked defective.
\<close>

definition annotated_example :: pyval where
  "annotated_example =
     PDict [(PStr ''u1'',
       PDict [(PStr ''userId'', PStr ''u1''),
              (PStr ''prompts'',
               PDict [(PStr ''T1'',
                 PDict [(PStr ''title'', PStr ''T1''), (PStr ''content'', PStr ''desc''),
                        (PStr ''images'',
                         PList [PDict [(PStr ''url'', PStr ''http://a''), (PStr ''content'', PStr ''desc'')],
                                PDict [(PStr ''url'', PStr ''http://b''), (PStr ''content'', PStr []),
                                       (PStr ''is_defective'', PBool True)]])])])])]"

text \<open>
  The hierarchy in the words of the specification. \<open>col cols name r\<close> is the cell of row
  \<open>r\<close> in the column labelled \<open>name\<close>; \<open>keys_of\<close> are the distinct values of a column
  that are not NaN, in ascending order; \<open>rows_with\<close> are the rows carrying a value, in
  their order in the table.
\<close>

definition col :: "string list \<Rightarrow> string \<Rightarrow> cell list \<Rightarrow> cell" where
  "col cols name r = (case positions name cols 0 of [] \<Rightarrow> NaN | j # js \<Rightarrow> cell_at r j)"

definition keys_of :: "string list \<Rightarrow> string \<Rightarrow> (int \<times> cell list) list \<Rightarrow> cell list" where
  "keys_of cols name rs = sort (remdups (filter (\<lambda>k. k \<noteq> NaN) (map (\<lambda>(i, r). col cols name r) rs)))"

definition rows_with ::
  "string list \<Rightarrow> string \<Rightarrow> cell \<Rightarrow> (int \<times> cell list) list \<Rightarrow> (int \<times> cell list) list" where
  "rows_with cols name k rs = filter (\<lambda>(i, r). col cols name r = k) rs"

text \<open>
  An Item holds the url and the content cell of its own row and the index label of the
  row; only a table without a content column gives it the content of the Group.
\<close>

definition image_of_row :: "string list \<Rightarrow> pyval \<Rightarrow> int \<times> cell list \<Rightarrow> pyval" where
  "image_of_row cols prompt_content = (\<lambda>(idx, r).
     PDict [(PStr ''url'', of_cell (col cols ''url'' r)),
            (PStr ''content'',
               if ''content'' \<in> set cols then of_cell (col cols ''content'' r) else prompt_content),
            (PStr ''original_row_index'', PInt idx)])"

definition group_content :: "string list \<Rightarrow> (int \<times> cell list) list \<Rightarrow> pyval" where
  "group_content cols rs =
     (if ''content'' \<in> set cols
      then (case rs of [] \<Rightarrow> PStr [] | (idx, r) # rest \<Rightarrow> of_cell (col cols ''content'' r))
      else PStr [])"

definition group_of :: "string list \<Rightarrow> cell \<Rightarrow> (int \<times> cell list) list \<Rightarrow> pyval \<times> pyval" where
  "group_of cols title rs =
     (of_cell title,
      PDict [(PStr ''title'', of_cell title), (PStr ''content'', group_content cols rs),
             (PStr ''images'', PList (map (image_of_row cols (group_content cols rs)) rs))])"

definition user_of :: "string list \<Rightarrow> cell \<Rightarrow> (int \<times> cell list) list \<Rightarrow> pyval \<times> pyval" where
  "user_of cols user_id rs =
     (PStr (py_str user_id),
      PDict [(PStr ''userId'', PStr (py_str user_id)),
             (PStr ''prompts'',
              PDict (map (\<lambda>title. group_of cols title (rows_with cols ''title'' title rs))
                       (keys_of cols ''title'' rs)))])"

definition hierarchy_of :: "dataframe \<Rightarrow> pyval" where
  "hierarchy_of df =
     PDict (map (\<lambda>user_id. user_of (columns df) user_id (rows_with (columns df) ''userId'' user_id (rows df)))
              (keys_of (columns df) ''userId'' (rows df)))"

text \<open>The values of a list in the order in which they are first seen.\<close>

definition first_seen :: "'a list \<Rightarrow> 'a list" where
  "first_seen xs = rev (remdups (rev xs))"

definition dict_keys :: "pyval \<Rightarrow> pyval list" where
  "dict_keys v = (case v of PDict kvs \<Rightarrow> map fst kvs | _ \<Rightarrow> [])"

text \<open>
  A normalized RowSet with the four recognized columns: each of the four labels selects
  one column, every row has a cell for every column, and no cell is missing.
\<close>

definition has_column :: "dataframe \<Rightarrow> string \<Rightarrow> bool" where
  "has_column df name = (case column_index (columns df) name of Inr j \<Rightarrow> True | Inl e \<Rightarrow> False)"

definition rectangular :: "dataframe \<Rightarrow> bool" where
  "rectangular df = list_all (\<lambda>(i, r). length r = length (columns df)) (rows df)"

definition normalized :: "dataframe \<Rightarrow> bool" where
  "normalized df =
     (list_all (has_column df) required \<and> rectangular df
      \<and> list_all (\<lambda>(i, r). NaN \<notin> set r) (rows df))"



text \<open>
  Looking a Group up by the key of its User and its title: the titles of a User in
  traversal order, and the index labels of the rows of a Group in the order of its images.
\<close>

definition user_titles :: "pyval \<Rightarrow> pyval \<Rightarrow> pyval list" where
  "user_titles h user_id =
     (case map_of (users_of h) user_id of
        None \<Rightarrow> []
      | Some user \<Rightarrow> map fst (prompts_of user))"

definition group_row_labels :: "pyval \<Rightarrow> pyval \<Rightarrow> pyval \<Rightarrow> pyval list" where
  "group_row_labels h user_id title =
     (case map_of (users_of h) user_id of
        None \<Rightarrow> []
      | Some user \<Rightarrow>
          (case map_of (prompts_of user) title of
             None \<Rightarrow> []
           | Some g \<Rightarrow> map (\<lambda>img. field img ''original_row_index'' PNone) (images_of g)))"

text \<open>Example tables.\<close>

definition order_example :: dataframe where
  "order_example =
     \<lparr>columns = [''userId'', ''url'', ''title'', ''content''],
      rows = [(0, [StrV ''u2'', StrV ''x'', StrV ''t'', StrV ''p'']),
              (1, [StrV ''u1'', StrV ''y'', StrV ''b'', StrV ''q'']),
              (2, [StrV ''u1'', StrV ''z'', StrV ''a'', StrV ''r''])]\<rparr>"

definition content_example :: dataframe where
  "content_example =
     \<lparr>columns = [''userId'', ''url'', ''title'', ''content''],
      rows = [(0, [StrV ''u1'', StrV ''http://a'', StrV ''T1'', StrV ''A'']),
              (1, [StrV ''u1'', StrV ''http://b'', StrV ''T1'', StrV []])]\<rparr>"

definition collision_example :: dataframe where
  "collision_example =
     \<lparr>columns = [''userId'', ''url'', ''title'', ''content''],
      rows = [(0, [IntV 1, StrV ''x'', StrV ''t'', StrV ''p'']),
              (1, [StrV ''1'', StrV ''y'', StrV ''t'', StrV ''q''])]\<rparr>"










text \<open>
  The test of lines 139 to 141 on an Item: it is kept when its \<^verbatim>\<open>is_defective\<close> or its
  \<^verbatim>\<open>review_comment\<close> is true in Python's sense.
\<close>

definition marked :: "pyval \<times> pyval \<times> pyval \<times> pyval \<Rightarrow> bool" where
  "marked = (\<lambda>(user_id, title, prompt_info, img).
     truthy (field img ''is_defective'' (PBool False))
     \<or> truthy (field img ''review_comment'' (PStr [])))"

text \<open>
  A hierarchy as an annotating client may send it: the first image has the comment
  \<^verbatim>\<open>null\<close>, the second is marked defective by the text \<^verbatim>\<open>"no"\<close>.
\<close>

definition untyped_example :: pyval where
  "untyped_example =
     PDict [(PStr ''u1'',
       PDict [(PStr ''userId'', PStr ''u1''),
              (PStr ''prompts'',
               PDict [(PStr ''T1'',
                 PDict [(PStr ''title'', PStr ''T1''), (PStr ''content'', PStr ''desc''),
                        (PStr ''images'',
                         PList [PDict [(PStr ''url'', PStr ''http://a''), (PStr ''review_comment'', PNone)],
                                PDict [(PStr ''url'', PStr ''http://b''),
                                       (PStr ''is_defective'', PStr ''no'')]])])])])]"

text \<open>A field of an Item, and a field of the Group of an Item.\<close>

definition item_field :: "string \<Rightarrow> pyval \<times> pyval \<times> pyval \<times> pyval \<Rightarrow> pyval" where
  "item_field k = (\<lambda>(user_id, title, prompt_info, img). field img k PNone)"

definition group_field :: "string \<Rightarrow> pyval \<times> pyval \<times> pyval \<times> pyval \<Rightarrow> pyval" where
  "group_field k = (\<lambda>(user_id, title, prompt_info, img). field prompt_info k PNone)"

definition missing_example :: dataframe where
  "missing_example =
     \<lparr>columns = [''userId'', ''url'', ''title'', ''content''],
      rows = [(0, [NaN, StrV ''x'', NaN, StrV ''p'']),
              (1, [StrV ''u1'', StrV ''y'', StrV ''t'', NaN])]\<rparr>"

text \<open>A reader of pandas that delivers a given table, whatever the bytes.\<close>

definition reader_of :: "dataframe \<Rightarrow> string \<Rightarrow> string + dataframe" where
  "reader_of df bytes = Inr df"

section \<open>Properties of parse_file\<close>

lemma endswith_iff_append: "endswith s suf = (\<exists>p. s = p @ suf)"
proof
  assume "endswith s suf"
  then have "s = take (length s - length suf) s @ suf"
    by (metis append_take_drop_id endswith_def)
  then show "\<exists>p. s = p @ suf" ..
next
  assume "\<exists>p. s = p @ suf"
  then show "endswith s suf" by (auto simp: endswith_def)
qed

lemma extension_append:
  assumes "CHR ''.'' \<notin> set e"
  shows "extension (p @ CHR ''.'' # e) = CHR ''.'' # e"
proof -
  have "takeWhile (\<lambda>c. c \<noteq> CHR ''.'') (rev e @ CHR ''.'' # rev p) = rev e"
    using assms by (auto simp: takeWhile_tail)
  then show ?thesis by (simp add: extension_def)
qed

lemma extension_is_suffix:
  assumes "extension s = CHR ''.'' # e"
  shows "\<exists>p. s = p @ CHR ''.'' # e"
proof -
  from assms have dot: "CHR ''.'' \<in> set s" and e: "e = rev (takeWhile (\<lambda>c. c \<noteq> CHR ''.'') (rev s))"
    by (auto simp: extension_def split: if_splits)
  let ?d = "dropWhile (\<lambda>c. c \<noteq> CHR ''.'') (rev s)"
  from dot have "?d \<noteq> []" by (simp add: dropWhile_eq_Nil_conv)
  then obtain x xs where d: "?d = x # xs" by (cases ?d) auto
  then have "x = CHR ''.''"
    by (metis (mono_tags, lifting) hd_dropWhile list.sel(1) list.distinct(1))
  have "rev s = rev e @ ?d" using e by simp
  then have "s = rev ?d @ e" by (metis rev_append rev_rev_ident)
  then show ?thesis using d \<open>x = CHR ''.''\<close> by simp
qed

lemma endswith_extension:
  assumes "CHR ''.'' \<notin> set e"
  shows "endswith s (CHR ''.'' # e) = (extension s = CHR ''.'' # e)"
  using assms extension_append extension_is_suffix
  by (auto simp: endswith_iff_append)

text \<open>
  Claim C8. \<^verbatim>\<open>parse_file\<close> fails with UnsupportedFormat exactly when the extension of
  the declared file name is none of \<^verbatim>\<open>.csv\<close>, \<^verbatim>\<open>.xls\<close> and \<^verbatim>\<open>.xlsx\<close>. For a recognized
  extension the result is that of the reader chosen by the name alone (the CSV reader for
  \<^verbatim>\<open>.csv\<close>, the spreadsheet reader for the other two), with the column names stripped;
  the bytes of the file play no part in the choice.
\<close>

theorem parse_file_unsupported_iff:
  "(parse_file read_csv read_excel filename file = Inl UnsupportedFormat)
     = (extension filename \<noteq> ''.csv'' \<and> extension filename \<noteq> ''.xls'' \<and> extension filename \<noteq> ''.xlsx'')
   \<and> parse_file read_csv read_excel filename file =
       (if extension filename = ''.csv'' then
          (case read_csv file of Inl msg \<Rightarrow> Inl (ParserError msg) | Inr df \<Rightarrow> Inr (strip_columns df))
        else if extension filename = ''.xls'' \<or> extension filename = ''.xlsx'' then
          (case read_excel file of Inl msg \<Rightarrow> Inl (ParserError msg) | Inr df \<Rightarrow> Inr (strip_columns df))
        else Inl UnsupportedFormat)"
proof -
  have a: "endswith filename ''.csv'' = (extension filename = ''.csv'')"
    by (rule endswith_extension) simp
  have b: "endswith filename ''.xls'' = (extension filename = ''.xls'')"
    by (rule endswith_extension) simp
  have c: "endswith filename ''.xlsx'' = (extension filename = ''.xlsx'')"
    by (rule endswith_extension) simp
  show ?thesis
    unfolding parse_file_def a b c
    by (auto split: sum.splits)
qed


theorem parse_file_unsupported_iff_witness:
  "parse_file (\<lambda>bytes. Inl ''unreadable'') (\<lambda>bytes. Inl ''unreadable'') ''notes.txt'' ''a,b''
     = Inl UnsupportedFormat
   \<and> parse_file (\<lambda>bytes. Inl ''unreadable'') (\<lambda>bytes. Inl ''unreadable'') ''rows.csv'' ''a,b''
     = Inl (ParserError ''unreadable'')"
proof -
  have a: "extension ''notes.txt'' = ''.txt''" by code_simp
  have b: "extension ''rows.csv'' = ''.csv''" by code_simp
  show ?thesis
    using parse_file_unsupported_iff
            [of "\<lambda>bytes. Inl ''unreadable''" "\<lambda>bytes. Inl ''unreadable''" "''notes.txt''" "''a,b''"]
          parse_file_unsupported_iff
            [of "\<lambda>bytes. Inl ''unreadable''" "\<lambda>bytes. Inl ''unreadable''" "''rows.csv''" "''a,b''"]
    by (simp add: a b)
qed

section \<open>Properties of clean_data\<close>

lemma rename_first_find:
  "rename_first m cs cols =
     (case find (\<lambda>c. lower c = lower m) cs of
        None \<Rightarrow> cols
      | Some c \<Rightarrow> map (\<lambda>x. if x = c then m else x) cols)"
  by (induction cs) simp_all

lemma rename_first_lower: "map lower (rename_first m cs cols) = map lower cols"
  by (induction cs) auto

lemma rename_first_length: "length (rename_first m cs cols) = length cols"
  using rename_first_lower [of m cs cols] by (metis length_map)

lemma rename_first_nth_lower:
  "i < length cols \<Longrightarrow> lower (rename_first m cs cols ! i) = lower (cols ! i)"
  using rename_first_lower [of m cs cols] rename_first_length [of m cs cols]
  by (metis nth_map)

lemma rename_first_hit:
  assumes "i < length cols" "lower (cols ! i) = lower m" "\<forall>j<i. lower (cols ! j) \<noteq> lower m"
  shows "rename_first m cols cols ! i = m"
proof -
  have "find (\<lambda>c. lower c = lower m) cols = Some (cols ! i)"
    using assms by (auto simp: find_Some_iff)
  then show ?thesis using assms(1) by (simp add: rename_first_find)
qed

lemma rename_first_keep:
  "i < length cols \<Longrightarrow> lower (cols ! i) \<noteq> lower m \<Longrightarrow> rename_first m cs cols ! i = cols ! i"
  by (induction cs) auto

lemma fold_rename_length:
  "length (fold (\<lambda>m cols. rename_first m cols cols) ms cols) = length cols"
  by (induction ms arbitrary: cols) (simp_all add: rename_first_length)

lemma fold_rename_keep:
  "i < length cols \<Longrightarrow> \<forall>m\<in>set ms. lower (cols ! i) \<noteq> lower m
     \<Longrightarrow> fold (\<lambda>m cols. rename_first m cols cols) ms cols ! i = cols ! i"
proof (induction ms arbitrary: cols)
  case Nil
  then show ?case by simp
next
  case (Cons a ms)
  let ?c = "rename_first a cols cols"
  have k: "?c ! i = cols ! i" using Cons.prems by (simp add: rename_first_keep)
  have "fold (\<lambda>m cols. rename_first m cols cols) ms ?c ! i = ?c ! i"
    using Cons.prems k by (intro Cons.IH) (simp_all add: rename_first_length)
  then show ?case using k by simp
qed

lemma fold_rename_hit:
  assumes "m \<in> set ms" "\<forall>m'\<in>set ms. m' \<noteq> m \<longrightarrow> lower m' \<noteq> lower m"
    and "i < length cols" "lower (cols ! i) = lower m" "\<forall>j<i. lower (cols ! j) \<noteq> lower m"
  shows "fold (\<lambda>m cols. rename_first m cols cols) ms cols ! i = m"
  using assms
proof (induction ms arbitrary: cols)
  case Nil
  then show ?case by simp
next
  case (Cons a ms)
  let ?c = "rename_first a cols cols"
  have len: "length ?c = length cols" by (simp add: rename_first_length)
  have low: "\<And>j. j < length cols \<Longrightarrow> lower (?c ! j) = lower (cols ! j)"
    by (simp add: rename_first_nth_lower)
  have first: "i < length ?c" "lower (?c ! i) = lower m" "\<forall>j<i. lower (?c ! j) \<noteq> lower m"
    using Cons.prems(3-5) len low by auto
  show ?case
  proof (cases "m \<in> set ms")
    case True
    then have "fold (\<lambda>m cols. rename_first m cols cols) ms ?c ! i = m"
      using Cons.prems(2) first by (intro Cons.IH) auto
    then show ?thesis by simp
  next
    case False
    then have am: "a = m" using Cons.prems(1) by simp
    have hit: "?c ! i = m" using am Cons.prems(3-5) by (simp add: rename_first_hit)
    have "\<forall>m'\<in>set ms. lower (?c ! i) \<noteq> lower m'"
      using hit False Cons.prems(2) by (metis list.set_intros(2))
    then have "fold (\<lambda>m cols. rename_first m cols cols) ms ?c ! i = ?c ! i"
      using first(1) by (intro fold_rename_keep) auto
    then show ?thesis using hit by simp
  qed
qed

lemma required_lower_closed:
  "\<forall>m\<in>set required. \<forall>m'\<in>set required. m' \<noteq> m \<longrightarrow> lower m' \<noteq> lower m"
  by code_simp

lemma required_lower_distinct:
  "m \<in> set required \<Longrightarrow> m' \<in> set required \<Longrightarrow> m' \<noteq> m \<Longrightarrow> lower m' \<noteq> lower m"
  using required_lower_closed by blast

lemma columns_clean_data:
  "columns (clean_data df) =
     fold (\<lambda>m cols. rename_first m cols cols)
       (filter (\<lambda>c. c \<notin> set (columns df)) required) (columns df)"
  by (simp add: clean_data_def Let_def)

lemma strip_prefixes_spec:
  "\<exists>a. s = concat a @ strip_prefixes ws s \<and> set a \<subseteq> set ws
       \<and> (\<forall>w\<in>set ws. w \<noteq> [] \<longrightarrow> take (length w) (strip_prefixes ws s) \<noteq> w)"
proof (induction ws s rule: strip_prefixes.induct)
  case (1 ws s)
  show ?case
  proof (cases "find (\<lambda>w. w \<noteq> [] \<and> take (length w) s = w) ws")
    case None
    then have r: "strip_prefixes ws s = s" by (simp add: strip_prefixes.simps [of ws s])
    have "\<forall>w\<in>set ws. w \<noteq> [] \<longrightarrow> take (length w) s \<noteq> w"
      using None by (auto simp: find_None_iff)
    then have "s = concat [] @ strip_prefixes ws s \<and> set [] \<subseteq> set ws
       \<and> (\<forall>w\<in>set ws. w \<noteq> [] \<longrightarrow> take (length w) (strip_prefixes ws s) \<noteq> w)"
      by (simp add: r)
    then show ?thesis by blast
  next
    case (Some w)
    then have r: "strip_prefixes ws s = strip_prefixes ws (drop (length w) s)"
      by (simp add: strip_prefixes.simps [of ws s])
    from Some have w: "w \<in> set ws" "take (length w) s = w"
      by (auto simp: find_Some_iff)
    from 1 [OF Some] obtain a where
      a: "drop (length w) s = concat a @ strip_prefixes ws (drop (length w) s)" "set a \<subseteq> set ws"
      and n: "\<forall>v\<in>set ws. v \<noteq> [] \<longrightarrow> take (length v) (strip_prefixes ws (drop (length w) s)) \<noteq> v"
      by blast
    have "s = w @ drop (length w) s" using w(2) by (metis append_take_drop_id)
    then have "s = concat (w # a) @ strip_prefixes ws s" using a(1) r by simp
    moreover have "set (w # a) \<subseteq> set ws" using w(1) a(2) by simp
    ultimately show ?thesis using n r by metis
  qed
qed

lemma whitespace_nonempty: "[] \<notin> set whitespace"
  by code_simp

lemma strip_trims:
  "\<exists>a b. s = concat a @ strip s @ concat b \<and> set a \<subseteq> set whitespace \<and> set b \<subseteq> set whitespace
         \<and> (\<forall>w\<in>set whitespace. \<not> startswith (strip s) w \<and> \<not> endswith (strip s) w)"
proof -
  let ?t = "lstrip s"
  let ?r = "strip_prefixes (map rev whitespace) (rev ?t)"
  from strip_prefixes_spec [of s whitespace] obtain a where
    a: "s = concat a @ ?t" "set a \<subseteq> set whitespace"
    and na: "\<forall>w\<in>set whitespace. w \<noteq> [] \<longrightarrow> take (length w) ?t \<noteq> w"
    unfolding lstrip_def by blast
  from strip_prefixes_spec [of "rev ?t" "map rev whitespace"] obtain b' where
    b: "rev ?t = concat b' @ ?r" "set b' \<subseteq> set (map rev whitespace)"
    and nb: "\<forall>w\<in>set (map rev whitespace). w \<noteq> [] \<longrightarrow> take (length w) ?r \<noteq> w"
    by blast
  have st: "strip s = rev ?r" by (simp add: strip_def rstrip_def)
  let ?b = "map rev (rev b')"
  have "?t = rev (concat b' @ ?r)" using b(1) by (metis rev_rev_ident)
  then have t: "?t = strip s @ concat ?b" by (simp add: st rev_concat)
  have bs: "set ?b \<subseteq> set whitespace" using b(2) by auto
  have s: "s = concat a @ strip s @ concat ?b" using a(1) t by simp
  have ends: "\<not> startswith (strip s) w \<and> \<not> endswith (strip s) w" if w: "w \<in> set whitespace" for w
  proof
    have wn: "w \<noteq> []" using w whitespace_nonempty by auto
    show "\<not> startswith (strip s) w"
    proof
      assume "startswith (strip s) w"
      then have p: "take (length w) (strip s) = w" by (simp add: startswith_def)
      have "length w \<le> length (strip s)"
      proof (rule ccontr)
        assume n: "\<not> length w \<le> length (strip s)"
        then have "take (length w) (strip s) = strip s" by simp
        with p have "strip s = w" by simp
        with n show False by simp
      qed
      then have "take (length w) ?t = w" using p by (subst t) simp
      then show False using na w wn by blast
    qed
    show "\<not> endswith (strip s) w"
    proof
      assume "endswith (strip s) w"
      then have l: "length w \<le> length ?r" and d: "drop (length ?r - length w) (rev ?r) = w"
        by (simp_all add: endswith_def st)
      have "rev (take (length w) ?r) = w" using d by (simp add: rev_take)
      then have "take (length w) ?r = rev w" by (metis rev_rev_ident)
      then have "take (length (rev w)) ?r = rev w" by simp
      moreover have "rev w \<in> set (map rev whitespace)" using w by simp
      moreover have "rev w \<noteq> []" using wn by simp
      ultimately show False using nb by blast
    qed
  qed
  show ?thesis using s a(2) bs ends by blast
qed

lemma parse_file_Inr:
  assumes "parse_file read_csv read_excel filename file = Inr df"
  shows "\<exists>raw. (read_csv file = Inr raw \<or> read_excel file = Inr raw)
           \<and> columns df = map strip (columns raw) \<and> rows df = rows raw"
  using assms
  by (auto simp: parse_file_def strip_columns_def split: if_splits sum.splits)

text \<open>
  Claim C6. The table that \<^verbatim>\<open>parse_file\<close> returns has the column names of the table
  the reader delivered, each stripped, and stripping removes whitespace characters from
  both ends until neither end is one. \<^verbatim>\<open>clean_data\<close> keeps the number of columns; for a
  recognized name that no column carries exactly, the first column whose name equals it
  up to case is renamed to the canonical name; a column that carries a recognized name
  exactly keeps it. In particular a header \<^verbatim>\<open>" UserID "\<close>, also one that is padded with
  a no-break space, becomes the column \<^verbatim>\<open>userId\<close> that the grouping selects.
\<close>

theorem clean_data_column_names:
  "(parse_file read_csv read_excel filename file = Inr df
      \<longrightarrow> (\<exists>raw. (read_csv file = Inr raw \<or> read_excel file = Inr raw)
             \<and> columns df = map strip (columns raw) \<and> rows df = rows raw))
   \<and> (\<forall>s. \<exists>a b. s = concat a @ strip s @ concat b
         \<and> set a \<subseteq> set whitespace \<and> set b \<subseteq> set whitespace
         \<and> (\<forall>w\<in>set whitespace. \<not> startswith (strip s) w \<and> \<not> endswith (strip s) w))
   \<and> length (columns (clean_data df)) = length (columns df)
   \<and> (\<forall>m i. m \<in> set required \<and> m \<notin> set (columns df) \<and> i < length (columns df)
          \<and> lower (columns df ! i) = lower m \<and> (\<forall>j<i. lower (columns df ! j) \<noteq> lower m)
        \<longrightarrow> columns (clean_data df) ! i = m)
   \<and> (\<forall>i. i < length (columns df) \<and> columns df ! i \<in> set required
        \<longrightarrow> columns (clean_data df) ! i = columns df ! i)
   \<and> (parse_file (reader_of \<lparr>columns = ['' UserID '', ''url'', ''title'', ''content''], rows = rs\<rparr>)
          read_excel ''upload.csv'' file = Inr df
        \<longrightarrow> columns (clean_data df) = [''userId'', ''url'', ''title'', ''content'']
            \<and> column_index (columns (clean_data df)) ''userId'' = Inr 0)
   \<and> (parse_file (reader_of
          \<lparr>columns = [[CHR 0xC2, CHR 0xA0] @ ''USERID'' @ [CHR 0xE2, CHR 0x80, CHR 0x83], ''url'',
                      ''title'', ''content''], rows = rs\<rparr>)
          read_excel ''upload.csv'' file = Inr df
        \<longrightarrow> columns (clean_data df) = [''userId'', ''url'', ''title'', ''content'']
            \<and> column_index (columns (clean_data df)) ''userId'' = Inr 0)"
proof (intro conjI allI impI)
  assume "parse_file read_csv read_excel filename file = Inr df"
  then show "\<exists>raw. (read_csv file = Inr raw \<or> read_excel file = Inr raw)
             \<and> columns df = map strip (columns raw) \<and> rows df = rows raw"
    by (rule parse_file_Inr)
next
  fix s
  show "\<exists>a b. s = concat a @ strip s @ concat b
         \<and> set a \<subseteq> set whitespace \<and> set b \<subseteq> set whitespace
         \<and> (\<forall>w\<in>set whitespace. \<not> startswith (strip s) w \<and> \<not> endswith (strip s) w)"
    by (rule strip_trims)
next
  show "length (columns (clean_data df)) = length (columns df)"
    by (simp add: columns_clean_data fold_rename_length)
next
  fix m i
  assume h: "m \<in> set required \<and> m \<notin> set (columns df) \<and> i < length (columns df)
          \<and> lower (columns df ! i) = lower m \<and> (\<forall>j<i. lower (columns df ! j) \<noteq> lower m)"
  let ?ms = "filter (\<lambda>c. c \<notin> set (columns df)) required"
  have "m \<in> set ?ms" using h by simp
  moreover have "\<forall>m'\<in>set ?ms. m' \<noteq> m \<longrightarrow> lower m' \<noteq> lower m"
    using h by (simp add: required_lower_distinct)
  ultimately show "columns (clean_data df) ! i = m"
    unfolding columns_clean_data using h by (intro fold_rename_hit) auto
next
  fix i
  assume h: "i < length (columns df) \<and> columns df ! i \<in> set required"
  let ?ms = "filter (\<lambda>c. c \<notin> set (columns df)) required"
  have "\<forall>m\<in>set ?ms. lower (columns df ! i) \<noteq> lower m"
  proof
    fix m assume m: "m \<in> set ?ms"
    then have "m \<noteq> columns df ! i" using h by auto
    moreover have "m \<in> set required" using m by simp
    ultimately show "lower (columns df ! i) \<noteq> lower m"
      using h by (intro required_lower_distinct) simp_all
  qed
  then show "columns (clean_data df) ! i = columns df ! i"
    unfolding columns_clean_data using h by (intro fold_rename_keep) auto
next
  assume p: "parse_file (reader_of \<lparr>columns = ['' UserID '', ''url'', ''title'', ''content''], rows = rs\<rparr>)
          read_excel ''upload.csv'' file = Inr df"
  have e: "endswith ''upload.csv'' ''.csv''" by code_simp
  have c: "strip '' UserID '' = ''UserID''" "strip ''url'' = ''url''" "strip ''title'' = ''title''"
    "strip ''content'' = ''content''"
    by code_simp+
  have df: "df = \<lparr>columns = [''UserID'', ''url'', ''title'', ''content''], rows = rs\<rparr>"
    using p by (auto simp: parse_file_def e reader_of_def strip_columns_def c)
  have k: "columns (clean_data \<lparr>columns = [''UserID'', ''url'', ''title'', ''content''], rows = rs\<rparr>)
             = [''userId'', ''url'', ''title'', ''content'']"
    by code_simp
  have j: "column_index [''userId'', ''url'', ''title'', ''content''] ''userId'' = Inr 0"
    by code_simp
  show "columns (clean_data df) = [''userId'', ''url'', ''title'', ''content'']"
    by (simp only: df k)
  show "column_index (columns (clean_data df)) ''userId'' = Inr 0"
    by (simp only: df k j)
next
  assume p: "parse_file (reader_of
          \<lparr>columns = [[CHR 0xC2, CHR 0xA0] @ ''USERID'' @ [CHR 0xE2, CHR 0x80, CHR 0x83], ''url'',
                      ''title'', ''content''], rows = rs\<rparr>)
          read_excel ''upload.csv'' file = Inr df"
  have e: "endswith ''upload.csv'' ''.csv''" by code_simp
  have c: "strip ([CHR 0xC2, CHR 0xA0] @ ''USERID'' @ [CHR 0xE2, CHR 0x80, CHR 0x83]) = ''USERID''"
    "strip ''url'' = ''url''" "strip ''title'' = ''title''" "strip ''content'' = ''content''"
    by code_simp+
  have df: "df = \<lparr>columns = [''USERID'', ''url'', ''title'', ''content''], rows = rs\<rparr>"
    using p c by (auto simp: parse_file_def e reader_of_def strip_columns_def)
  have k: "columns (clean_data \<lparr>columns = [''USERID'', ''url'', ''title'', ''content''], rows = rs\<rparr>)
             = [''userId'', ''url'', ''title'', ''content'']"
    by code_simp
  have j: "column_index [''userId'', ''url'', ''title'', ''content''] ''userId'' = Inr 0"
    by code_simp
  show "columns (clean_data df) = [''userId'', ''url'', ''title'', ''content'']"
    by (simp only: df k)
  show "column_index (columns (clean_data df)) ''userId'' = Inr 0"
    by (simp only: df k j)
qed

theorem clean_data_column_names_witness:
  "parse_file (reader_of \<lparr>columns = ['' UserID '', ''url'', ''title'', ''content''], rows = []\<rparr>)
      (reader_of \<lparr>columns = [], rows = []\<rparr>) ''upload.csv'' []
     = Inr \<lparr>columns = [''UserID'', ''url'', ''title'', ''content''], rows = []\<rparr>
   \<and> columns (clean_data \<lparr>columns = [''UserID'', ''url'', ''title'', ''content''], rows = []\<rparr>)
       = [''userId'', ''url'', ''title'', ''content'']
   \<and> ''userId'' \<notin> set (columns \<lparr>columns = [''USERID'', ''url''], rows = []\<rparr>)
   \<and> lower (columns \<lparr>columns = [''USERID'', ''url''], rows = []\<rparr> ! 0) = lower ''userId''
   \<and> columns (clean_data \<lparr>columns = [''USERID'', ''url''], rows = []\<rparr>) ! 0 = ''userId''"
proof -
  let ?df = "\<lparr>columns = [''USERID'', ''url''], rows = []\<rparr>"
  let ?up = "\<lparr>columns = [''UserID'', ''url'', ''title'', ''content''], rows = []\<rparr>"
  have p: "parse_file (reader_of \<lparr>columns = ['' UserID '', ''url'', ''title'', ''content''], rows = []\<rparr>)
      (reader_of \<lparr>columns = [], rows = []\<rparr>) ''upload.csv'' [] = Inr ?up"
    by code_simp
  from clean_data_column_names
         [of "reader_of \<lparr>columns = ['' UserID '', ''url'', ''title'', ''content''], rows = []\<rparr>"
             "reader_of \<lparr>columns = [], rows = []\<rparr>" "''upload.csv''" "[]" ?up "[]"] p
  have q: "columns (clean_data ?up) = [''userId'', ''url'', ''title'', ''content'']"
    by blast
  have r: "''userId'' \<in> set required" by code_simp
  have n: "''userId'' \<notin> set (columns ?df)" by code_simp
  have l: "lower (columns ?df ! 0) = lower ''userId''" by code_simp
  have f: "\<forall>j<0::nat. lower (columns ?df ! j) \<noteq> lower ''userId''" by simp
  have i: "0 < length (columns ?df)" by simp
  from clean_data_column_names [of _ _ _ _ ?df] r n l f i
  have "columns (clean_data ?df) ! 0 = ''userId''" by blast
  with p q n l show ?thesis by (simp only: simp_thms)
qed

section \<open>Properties of the flattening in export_file\<close>

lemma dict_get_field: "is_dict d \<Longrightarrow> dict_get d k dflt = Inr (field d k dflt)"
  by (cases d) (simp_all add: field_def dict_get_def split: option.splits)

lemma py_iter_images: "is_list (field p ''images'' (PList [])) \<Longrightarrow>
  py_iter (field p ''images'' (PList [])) = Inr (images_of p)"
  by (cases "field p ''images'' (PList [])") (simp_all add: py_iter_def images_of_def)

lemma dict_items_prompts: "is_dict (field u ''prompts'' (PDict [])) \<Longrightarrow>
  dict_items (field u ''prompts'' (PDict [])) = Inr (prompts_of u)"
  by (cases "field u ''prompts'' (PDict [])") (simp_all add: dict_items_def prompts_of_def)

lemma dict_items_users: "is_dict h \<Longrightarrow> dict_items h = Inr (users_of h)"
  by (cases h) (simp_all add: dict_items_def users_of_def)

lemma img_loop_closed:
  "list_all is_dict imgs \<Longrightarrow>
   img_loop ro user_id title (field p ''content'' (PStr [])) imgs acc =
     Inr (acc @ map flat_record
        (filter (\<lambda>(u, t, g, img). \<not> truthy ro \<or> truthy (field img ''is_defective'' (PBool False))
                                 \<or> truthy (field img ''review_comment'' (PStr [])))
           (map (\<lambda>img. (user_id, title, p, img)) imgs)))"
proof (induction imgs arbitrary: acc)
  case Nil
  then show ?case by simp
next
  case (Cons img imgs)
  then have d: "is_dict img" and r: "list_all is_dict imgs" by simp_all
  show ?case
    by (simp add: dict_get_field [OF d] Cons.IH [OF r] flat_record_def)
qed

lemma prompt_loop_closed:
  "list_all wf_prompt ps \<Longrightarrow>
   prompt_loop ro user_id ps acc =
     Inr (acc @ map flat_record
        (filter (\<lambda>(u, t, g, img). \<not> truthy ro \<or> truthy (field img ''is_defective'' (PBool False))
                                 \<or> truthy (field img ''review_comment'' (PStr [])))
           (concat (map (prompt_items user_id) ps))))"
proof (induction ps arbitrary: acc)
  case Nil
  then show ?case by simp
next
  case (Cons tp ps)
  obtain title p where tp: "tp = (title, p)" by (cases tp)
  from Cons.prems tp have d: "is_dict p" and l: "is_list (field p ''images'' (PList []))"
    and i: "list_all is_dict (images_of p)" and r: "list_all wf_prompt ps"
    by (simp_all add: wf_prompt_def)
  show ?case
    by (simp add: tp dict_get_field [OF d] py_iter_images [OF l] img_loop_closed [OF i]
          Cons.IH [OF r] prompt_items_def)
qed

lemma user_loop_closed:
  "list_all wf_user us \<Longrightarrow>
   user_loop ro us acc =
     Inr (acc @ map flat_record
        (filter (\<lambda>(u, t, g, img). \<not> truthy ro \<or> truthy (field img ''is_defective'' (PBool False))
                                 \<or> truthy (field img ''review_comment'' (PStr [])))
           (concat (map user_items us))))"
proof (induction us arbitrary: acc)
  case Nil
  then show ?case by simp
next
  case (Cons uu us)
  obtain user_id u where uu: "uu = (user_id, u)" by (cases uu)
  from Cons.prems uu have d: "is_dict u" and l: "is_dict (field u ''prompts'' (PDict []))"
    and i: "list_all wf_prompt (prompts_of u)" and r: "list_all wf_user us"
    by (simp_all add: wf_user_def)
  show ?case
    by (simp add: uu dict_get_field [OF d] dict_items_prompts [OF l] prompt_loop_closed [OF i]
          Cons.IH [OF r] user_items_def)
qed

lemma flat_data_closed:
  "wf_hierarchy h \<Longrightarrow>
   flat_data h ro =
     Inr (map flat_record
        (filter (\<lambda>(u, t, g, img). \<not> truthy ro \<or> truthy (field img ''is_defective'' (PBool False))
                                 \<or> truthy (field img ''review_comment'' (PStr [])))
           (items_of h)))"
  by (simp add: flat_data_def wf_hierarchy_def dict_items_users user_loop_closed items_of_def)

text \<open>
  Claim C4. For a hierarchy of the shape of the data model, flattening without the filter
  yields one FlatRecord per Item, in traversal order, and the record of an Item holds the
  keys of its User and Group, the content field of the Group (not that of the Item), the
  url of the Item and its annotation fields, which default to false and to the empty text.
\<close>

theorem flat_data_group_content:
  assumes "wf_hierarchy h"
  shows "flat_data h (PBool False) =
     Inr (map (\<lambda>(user_id, title, prompt_info, img).
            PDict [(PStr ''userId'', user_id), (PStr ''title'', title),
                   (PStr ''content'', field prompt_info ''content'' (PStr [])),
                   (PStr ''url'', field img ''url'' (PStr [])),
                   (PStr ''is_defective'', field img ''is_defective'' (PBool False)),
                   (PStr ''review_comment'', field img ''review_comment'' (PStr []))])
          (items_of h))"
proof -
  have "flat_data h (PBool False) = Inr (map flat_record (items_of h))"
    using flat_data_closed [OF assms, of "PBool False"] by simp
  then show ?thesis by (simp add: flat_record_def)
qed

theorem flat_data_group_content_witness:
  "flat_data annotated_example (PBool False) =
     Inr [PDict [(PStr ''userId'', PStr ''u1''), (PStr ''title'', PStr ''T1''),
                 (PStr ''content'', PStr ''desc''), (PStr ''url'', PStr ''http://a''),
                 (PStr ''is_defective'', PBool False), (PStr ''review_comment'', PStr [])],
          PDict [(PStr ''userId'', PStr ''u1''), (PStr ''title'', PStr ''T1''),
                 (PStr ''content'', PStr ''desc''), (PStr ''url'', PStr ''http://b''),
                 (PStr ''is_defective'', PBool True), (PStr ''review_comment'', PStr [])]]"
proof -
  have wf: "wf_hierarchy annotated_example" by code_simp
  have e: "Inr (map (\<lambda>(user_id, title, prompt_info, img).
            PDict [(PStr ''userId'', user_id), (PStr ''title'', title),
                   (PStr ''content'', field prompt_info ''content'' (PStr [])),
                   (PStr ''url'', field img ''url'' (PStr [])),
                   (PStr ''is_defective'', field img ''is_defective'' (PBool False)),
                   (PStr ''review_comment'', field img ''review_comment'' (PStr []))])
          (items_of annotated_example)) =
     (Inr [PDict [(PStr ''userId'', PStr ''u1''), (PStr ''title'', PStr ''T1''),
                 (PStr ''content'', PStr ''desc''), (PStr ''url'', PStr ''http://a''),
                 (PStr ''is_defective'', PBool False), (PStr ''review_comment'', PStr [])],
          PDict [(PStr ''userId'', PStr ''u1''), (PStr ''title'', PStr ''T1''),
                 (PStr ''content'', PStr ''desc''), (PStr ''url'', PStr ''http://b''),
                 (PStr ''is_defective'', PBool True), (PStr ''review_comment'', PStr [])]]
       :: error + pyval list)"
    by code_simp
  show ?thesis by (rule trans [OF flat_data_group_content [OF wf] e])
qed

lemma typed_marked: "typed_annotations x \<Longrightarrow> marked x = reviewed x"
proof -
  obtain u t g img where x: "x = (u, t, g, img)" by (cases x)
  assume "typed_annotations x"
  then have "is_bool (field img ''is_defective'' (PBool False))"
    and "is_str (field img ''review_comment'' (PStr []))"
    by (simp_all add: x typed_annotations_def)
  then show ?thesis
    by (cases "field img ''is_defective'' (PBool False)"; cases "field img ''review_comment'' (PStr [])")
       (simp_all add: x reviewed_def marked_def)
qed

lemma flat_data_marked:
  assumes "wf_hierarchy h"
  shows "flat_data h (PBool True) = Inr (map flat_record (filter marked (items_of h)))"
proof -
  have "(\<lambda>(u, t, g, img). \<not> truthy (PBool True) \<or> truthy (field img ''is_defective'' (PBool False))
                                 \<or> truthy (field img ''review_comment'' (PStr []))) = marked"
    by (auto simp: marked_def fun_eq_iff)
  then show ?thesis using flat_data_closed [OF assms, of "PBool True"] by simp
qed

text \<open>
  Claim C5, as amended. For a hierarchy of the shape of the data model, flattening with
  the filter yields the FlatRecords of exactly the Items whose \<^verbatim>\<open>is_defective\<close> or
  \<^verbatim>\<open>review_comment\<close> is true in Python's sense, in traversal order; when there is no
  such Item the result is the empty list, not an error. Where every \<^verbatim>\<open>is_defective\<close>
  is a boolean and every \<^verbatim>\<open>review_comment\<close> a text, these are the Items that are marked
  defective or carry a comment that is not empty.
\<close>

theorem flat_data_reviewed_only:
  assumes "wf_hierarchy h"
  shows "flat_data h (PBool True) = Inr (map flat_record (filter marked (items_of h)))
       \<and> (if list_ex marked (items_of h) then True else flat_data h (PBool True) = Inr [])
       \<and> (list_all typed_annotations (items_of h)
            \<longrightarrow> filter marked (items_of h) = filter reviewed (items_of h))"
proof (intro conjI impI)
  show main: "flat_data h (PBool True) = Inr (map flat_record (filter marked (items_of h)))"
    by (rule flat_data_marked [OF assms])
  have "\<not> list_ex marked (items_of h) \<Longrightarrow> filter marked (items_of h) = []"
    by (simp add: list_ex_iff filter_empty_conv)
  with main show "if list_ex marked (items_of h) then True else flat_data h (PBool True) = Inr []"
    by simp
  assume "list_all typed_annotations (items_of h)"
  then show "filter marked (items_of h) = filter reviewed (items_of h)"
    by (intro filter_cong refl typed_marked) (simp add: list_all_iff)
qed

theorem flat_data_reviewed_only_counterexample:
  "wf_hierarchy untyped_example
   \<and> flat_data untyped_example (PBool True) =
       Inr [PDict [(PStr ''userId'', PStr ''u1''), (PStr ''title'', PStr ''T1''),
                   (PStr ''content'', PStr ''desc''), (PStr ''url'', PStr ''http://b''),
                   (PStr ''is_defective'', PStr ''no''), (PStr ''review_comment'', PStr [])]]
   \<and> map flat_record (filter reviewed (items_of untyped_example)) =
       [PDict [(PStr ''userId'', PStr ''u1''), (PStr ''title'', PStr ''T1''),
               (PStr ''content'', PStr ''desc''), (PStr ''url'', PStr ''http://a''),
               (PStr ''is_defective'', PBool False), (PStr ''review_comment'', PNone)]]"
  by code_simp

theorem flat_data_reviewed_only_witness:
  "flat_data annotated_example (PBool True) =
     Inr [PDict [(PStr ''userId'', PStr ''u1''), (PStr ''title'', PStr ''T1''),
                 (PStr ''content'', PStr ''desc''), (PStr ''url'', PStr ''http://b''),
                 (PStr ''is_defective'', PBool True), (PStr ''review_comment'', PStr [])]]"
proof -
  have wf: "wf_hierarchy annotated_example" by code_simp
  have e: "Inr (map flat_record (filter marked (items_of annotated_example))) =
     (Inr [PDict [(PStr ''userId'', PStr ''u1''), (PStr ''title'', PStr ''T1''),
                 (PStr ''content'', PStr ''desc''), (PStr ''url'', PStr ''http://b''),
                 (PStr ''is_defective'', PBool True), (PStr ''review_comment'', PStr [])]]
       :: error + pyval list)"
    by code_simp
  show ?thesis
    by (rule trans [OF conjunct1 [OF flat_data_reviewed_only [OF wf]] e])
qed

section \<open>The hierarchy that transform_to_hierarchy builds\<close>

lemma col_index: "column_index cols name = Inr j \<Longrightarrow> col cols name r = cell_at r j"
  by (auto simp: column_index_def col_def split: list.splits)

lemma row_get_col: "column_index cols name = Inr j \<Longrightarrow> row_get cols r name = Inr (of_cell (col cols name r))"
  by (simp add: row_get_def col_index)

lemma groupby_closed:
  assumes "column_index (columns df) name = Inr j"
  shows "groupby df name =
     Inr (map (\<lambda>k. (k, df\<lparr>rows := rows_with (columns df) name k (rows df)\<rparr>))
            (keys_of (columns df) name (rows df)))"
  using assms by (simp add: groupby_def keys_of_def rows_with_def col_index [OF assms])

lemma positions_in_set: "name \<in> set cols \<Longrightarrow> positions name cols j \<noteq> []"
  by (induction cols arbitrary: j) auto

lemma positions_not_in_set: "name \<notin> set cols \<Longrightarrow> positions name cols j = []"
  by (induction cols arbitrary: j) auto

lemma column_index_cases:
  "column_index cols name = Inl (KeyError name) \<and> name \<notin> set cols
   \<or> column_index cols name = Inl (DuplicateColumn name) \<and> name \<in> set cols
   \<or> (\<exists>j. column_index cols name = Inr j \<and> name \<in> set cols)"
proof (cases "name \<in> set cols")
  case True
  then show ?thesis
    using positions_in_set [of name cols 0]
    by (auto simp: column_index_def split: list.splits)
next
  case False
  then show ?thesis by (simp add: column_index_def positions_not_in_set)
qed

lemma iterrows_loop_closed:
  assumes "column_index cols ''url'' = Inr jl"
    and "column_index cols ''content'' \<noteq> Inl (DuplicateColumn ''content'')"
  shows "iterrows_loop cols pc rs acc = Inr (acc @ map (image_of_row cols pc) rs)"
proof (induction rs arbitrary: acc)
  case Nil
  then show ?case by simp
next
  case (Cons p rs)
  obtain idx row where p: "p = (idx, row)" by (cases p)
  have c: "''content'' \<in> set cols \<Longrightarrow> row_get cols row ''content'' = Inr (of_cell (col cols ''content'' row))"
    using column_index_cases [of cols "''content''"] assms(2) by (auto simp: row_get_col)
  show ?case
    by (simp add: p row_get_col [OF assms(1)] c Cons.IH image_of_row_def)
qed

lemma first_content_closed:
  assumes "column_index (columns g) ''content'' \<noteq> Inl (DuplicateColumn ''content'')"
    and "rows g \<noteq> []"
  shows "first_content g = Inr (group_content (columns g) (rows g))"
proof -
  have c: "''content'' \<in> set (columns g) \<Longrightarrow> row_get (columns g) row ''content'' = Inr (of_cell (col (columns g) ''content'' row))" for row
    using column_index_cases [of "columns g" "''content''"] assms(1) by (auto simp: row_get_col)
  show ?thesis
    using assms(2) c by (auto simp: first_content_def group_content_def split: list.splits)
qed

lemma dict_set_append: "k \<notin> fst ` set d \<Longrightarrow> dict_set d k v = d @ [(k, v)]"
  by (induction d) auto

lemma of_cell_inj: "of_cell a = of_cell b \<Longrightarrow> a = b"
  by (cases a; cases b) simp_all

lemma grouped_prompts_loop_closed:
  assumes "column_index cols ''url'' = Inr jl"
    and "column_index cols ''content'' \<noteq> Inl (DuplicateColumn ''content'')"
  shows "distinct (map fst gs) \<Longrightarrow> \<forall>(t, g)\<in>set gs. columns g = cols \<and> rows g \<noteq> [] \<and> of_cell t \<notin> fst ` set acc
     \<Longrightarrow> grouped_prompts_loop gs acc = Inr (acc @ map (\<lambda>(t, g). group_of cols t (rows g)) gs)"
proof (induction gs arbitrary: acc)
  case Nil
  then show ?case by simp
next
  case (Cons p gs)
  obtain t g where p: "p = (t, g)" by (cases p)
  from Cons.prems p have g: "columns g = cols" "rows g \<noteq> []" and t: "of_cell t \<notin> fst ` set acc"
    by auto
  let ?e = "group_of cols t (rows g)"
  have fc: "first_content g = Inr (group_content cols (rows g))"
    using first_content_closed [of g] assms(2) g by simp
  have it: "iterrows_loop cols (group_content cols (rows g)) (rows g) [] =
      Inr (map (image_of_row cols (group_content cols (rows g))) (rows g))"
    using iterrows_loop_closed [OF assms, of _ _ "[]"] by simp
  have d: "distinct (map fst gs)" using Cons.prems(1) by simp
  have rest: "\<forall>(t', g')\<in>set gs. columns g' = cols \<and> rows g' \<noteq> [] \<and> of_cell t' \<notin> fst ` set (acc @ [?e])"
  proof (clarify, intro conjI)
    fix t' g' assume m: "(t', g') \<in> set gs"
    then show "columns g' = cols" "rows g' \<noteq> []" using Cons.prems(2) by auto
    have "t' \<noteq> t" using m Cons.prems(1) p by (auto simp: rev_image_eqI)
    moreover have "of_cell t' \<notin> fst ` set acc" using m Cons.prems(2) by auto
    ultimately show "of_cell t' \<notin> fst ` set (acc @ [?e])"
      by (auto simp: group_of_def dest: of_cell_inj)
  qed
  have "grouped_prompts_loop (p # gs) acc = grouped_prompts_loop gs (acc @ [?e])"
    by (simp add: p g fc it dict_set_append [OF t] group_of_def)
  also have "\<dots> = Inr ((acc @ [?e]) @ map (\<lambda>(t, g). group_of cols t (rows g)) gs)"
    by (rule Cons.IH [OF d rest])
  finally show ?case by (simp add: p)
qed

lemma keys_of_distinct: "distinct (keys_of cols name rs)"
  by (simp add: keys_of_def)

lemma keys_of_sorted: "sorted (keys_of cols name rs)"
  by (simp add: keys_of_def)

lemma keys_of_set:
  "set (keys_of cols name rs) = {k. k \<noteq> NaN \<and> (\<exists>(i, r)\<in>set rs. col cols name r = k)}"
  by (auto simp: keys_of_def)

lemma rows_with_nonempty: "k \<in> set (keys_of cols name rs) \<Longrightarrow> rows_with cols name k rs \<noteq> []"
  by (auto simp: keys_of_set rows_with_def filter_empty_conv)

lemma prompts_closed:
  assumes "column_index (columns ug) ''url'' = Inr jl"
    and "column_index (columns ug) ''content'' \<noteq> Inl (DuplicateColumn ''content'')"
    and "column_index (columns ug) ''title'' = Inr jt"
  shows "\<exists>gs. groupby ug ''title'' = Inr gs \<and>
     grouped_prompts_loop gs [] =
       Inr (map (\<lambda>title. group_of (columns ug) title (rows_with (columns ug) ''title'' title (rows ug)))
              (keys_of (columns ug) ''title'' (rows ug)))"
proof -
  let ?ks = "keys_of (columns ug) ''title'' (rows ug)"
  let ?gs = "map (\<lambda>k. (k, ug\<lparr>rows := rows_with (columns ug) ''title'' k (rows ug)\<rparr>)) ?ks"
  have g: "groupby ug ''title'' = Inr ?gs" by (rule groupby_closed [OF assms(3)])
  have d: "distinct (map fst ?gs)" by (simp add: comp_def keys_of_distinct)
  have w: "\<forall>(t, g)\<in>set ?gs. columns g = columns ug \<and> rows g \<noteq> [] \<and> of_cell t \<notin> fst ` set []"
    by (auto simp: rows_with_nonempty)
  have "grouped_prompts_loop ?gs [] = Inr ([] @ map (\<lambda>(t, g). group_of (columns ug) t (rows g)) ?gs)"
    by (rule grouped_prompts_loop_closed [OF assms(1,2) d w])
  then show ?thesis using g by (simp add: comp_def)
qed

lemma grouped_users_loop_closed:
  assumes "column_index cols ''url'' = Inr jl"
    and "column_index cols ''content'' \<noteq> Inl (DuplicateColumn ''content'')"
    and "column_index cols ''title'' = Inr jt"
  shows "distinct (map (\<lambda>(u, g). py_str u) gs) \<Longrightarrow>
     \<forall>(u, g)\<in>set gs. columns g = cols \<and> PStr (py_str u) \<notin> fst ` set acc
     \<Longrightarrow> grouped_users_loop gs acc = Inr (acc @ map (\<lambda>(u, g). user_of cols u (rows g)) gs)"
proof (induction gs arbitrary: acc)
  case Nil
  then show ?case by simp
next
  case (Cons p gs)
  obtain u g where p: "p = (u, g)" by (cases p)
  from Cons.prems p have g: "columns g = cols" and u: "PStr (py_str u) \<notin> fst ` set acc"
    by auto
  let ?e = "user_of cols u (rows g)"
  obtain pgs where pg: "groupby g ''title'' = Inr pgs"
    and pl: "grouped_prompts_loop pgs [] =
       Inr (map (\<lambda>title. group_of cols title (rows_with cols ''title'' title (rows g)))
              (keys_of cols ''title'' (rows g)))"
    using prompts_closed [of g jl jt] assms g by auto
  have d: "distinct (map (\<lambda>(u, g). py_str u) gs)" using Cons.prems(1) by simp
  have rest: "\<forall>(u', g')\<in>set gs. columns g' = cols \<and> PStr (py_str u') \<notin> fst ` set (acc @ [?e])"
  proof (clarify, intro conjI)
    fix u' g' assume m: "(u', g') \<in> set gs"
    then show "columns g' = cols" using Cons.prems(2) by auto
    have "py_str u' \<noteq> py_str u" using m Cons.prems(1) p by (auto simp: rev_image_eqI)
    moreover have "PStr (py_str u') \<notin> fst ` set acc" using m Cons.prems(2) by auto
    ultimately show "PStr (py_str u') \<notin> fst ` set (acc @ [?e])"
      by (auto simp: user_of_def)
  qed
  have "grouped_users_loop (p # gs) acc = grouped_users_loop gs (acc @ [?e])"
    by (simp add: p pg pl dict_set_append [OF u] user_of_def)
  also have "\<dots> = Inr ((acc @ [?e]) @ map (\<lambda>(u, g). user_of cols u (rows g)) gs)"
    by (rule Cons.IH [OF d rest])
  finally show ?case by (simp add: p)
qed

lemma transform_to_hierarchy_closed:
  assumes "column_index (columns df) ''userId'' = Inr ju"
    and "column_index (columns df) ''title'' = Inr jt"
    and "column_index (columns df) ''url'' = Inr jl"
    and "column_index (columns df) ''content'' \<noteq> Inl (DuplicateColumn ''content'')"
    and "distinct (map py_str (keys_of (columns df) ''userId'' (rows df)))"
  shows "transform_to_hierarchy df = Inr (hierarchy_of df)"
proof -
  let ?ks = "keys_of (columns df) ''userId'' (rows df)"
  let ?gs = "map (\<lambda>k. (k, df\<lparr>rows := rows_with (columns df) ''userId'' k (rows df)\<rparr>)) ?ks"
  have g: "groupby df ''userId'' = Inr ?gs" by (rule groupby_closed [OF assms(1)])
  have d: "distinct (map (\<lambda>(u, g). py_str u) ?gs)" using assms(5) by (simp add: comp_def)
  have w: "\<forall>(u, g)\<in>set ?gs. columns g = columns df \<and> PStr (py_str u) \<notin> fst ` set []"
    by auto
  have "grouped_users_loop ?gs [] = Inr ([] @ map (\<lambda>(u, g). user_of (columns df) u (rows g)) ?gs)"
    by (rule grouped_users_loop_closed [OF assms(3,4,2) d w])
  then show ?thesis
    by (simp add: transform_to_hierarchy_def g hierarchy_of_def comp_def)
qed

section \<open>Grouping by sorted keys is a stable sort\<close>

lemma mset_filter_key_split:
  "k \<notin> set ks \<Longrightarrow>
   mset (filter (\<lambda>x. f x = k) xs) + mset (filter (\<lambda>x. f x \<in> set ks) xs)
     = mset (filter (\<lambda>x. f x = k \<or> f x \<in> set ks) xs)"
  by (induction xs) auto

lemma mset_blocks:
  "distinct ks \<Longrightarrow>
   mset (concat (map (\<lambda>k. filter (\<lambda>x. f x = k) xs) ks)) = mset (filter (\<lambda>x. f x \<in> set ks) xs)"
proof (induction ks)
  case Nil
  then show ?case by simp
next
  case (Cons k ks)
  then have "k \<notin> set ks" and "distinct ks" by simp_all
  then show ?case
    using Cons.IH mset_filter_key_split [of k ks f xs] by simp
qed

lemma filter_blocks:
  "distinct ks \<Longrightarrow>
   filter (\<lambda>x. f x = k0) (concat (map (\<lambda>k. filter (\<lambda>x. f x = k) xs) ks))
     = (if k0 \<in> set ks then filter (\<lambda>x. f x = k0) xs else [])"
proof (induction ks)
  case Nil
  then show ?case by simp
next
  case (Cons k ks)
  show ?case using Cons by (auto simp: filter_empty_conv)
qed

lemma set_blocks:
  "f ` set (concat (map (\<lambda>k. filter (\<lambda>x. f x = k) xs) ks)) \<subseteq> set ks"
  by auto

lemma sorted_blocks:
  fixes f :: "'a \<Rightarrow> 'k::linorder"
  shows "sorted ks \<Longrightarrow> sorted (map f (concat (map (\<lambda>k. filter (\<lambda>x. f x = k) xs) ks)))"
proof (induction ks)
  case Nil
  then show ?case by simp
next
  case (Cons k ks)
  let ?rest = "concat (map (\<lambda>k. filter (\<lambda>x. f x = k) xs) ks)"
  have r: "sorted (map f ?rest)" using Cons by simp
  have b: "\<forall>y\<in>set ?rest. k \<le> f y"
    using Cons.prems set_blocks [of f xs ks] by auto
  have s: "sorted (map f (filter (\<lambda>x. f x = k) xs))"
    by (rule sorted_map_same)
  show ?case
    using r b s by (auto simp: sorted_append)
qed

lemma blocks_sort_key:
  fixes f :: "'a \<Rightarrow> 'k::linorder"
  shows "concat (map (\<lambda>k. filter (\<lambda>x. f x = k) xs) (sort (remdups (map f xs)))) = sort_key f xs"
proof (rule sym, rule properties_for_sort_key)
  let ?ks = "sort (remdups (map f xs))"
  let ?ys = "concat (map (\<lambda>k. filter (\<lambda>x. f x = k) xs) ?ks)"
  have d: "distinct ?ks" by simp
  have "mset ?ys = mset (filter (\<lambda>x. f x \<in> set ?ks) xs)" by (rule mset_blocks [OF d])
  also have "\<dots> = mset xs" by simp
  finally show "mset ?ys = mset xs" .
  show "sorted (map f ?ys)" by (rule sorted_blocks) simp
  fix k assume "k \<in> set ?ys"
  then have "f k \<in> set ?ks" using set_blocks [of f xs ?ks] by blast
  then have "filter (\<lambda>x. f x = f k) ?ys = filter (\<lambda>x. f x = f k) xs"
    using filter_blocks [OF d, of f "f k" xs] by simp
  then show "filter (\<lambda>x. f k = f x) ?ys = filter (\<lambda>x. f k = f x) xs"
    by (simp add: eq_commute)
qed

section \<open>What a successful run of transform_to_hierarchy returns\<close>

lemma row_get_Inr: "row_get cols r name = Inr v \<Longrightarrow> v = of_cell (col cols name r)"
  by (auto simp: row_get_def col_index split: sum.splits)

lemma iterrows_loop_Inr:
  "iterrows_loop cols pc rs acc = Inr imgs \<Longrightarrow> imgs = acc @ map (image_of_row cols pc) rs"
proof (induction rs arbitrary: acc)
  case Nil
  then show ?case by simp
next
  case (Cons p rs)
  obtain idx row where p: "p = (idx, row)" by (cases p)
  from Cons.prems p obtain url content where
    u: "row_get cols row ''url'' = Inr url"
    and c: "(if ''content'' \<in> set cols then row_get cols row ''content'' else Inr pc) = Inr content"
    and r: "iterrows_loop cols pc rs
              (acc @ [PDict [(PStr ''url'', url), (PStr ''content'', content),
                             (PStr ''original_row_index'', PInt idx)]]) = Inr imgs"
    by (auto split: sum.splits)
  have u': "url = of_cell (col cols ''url'' row)" using u by (rule row_get_Inr)
  have c': "content = (if ''content'' \<in> set cols then of_cell (col cols ''content'' row) else pc)"
    using c by (auto split: if_splits dest: row_get_Inr)
  show ?case using Cons.IH [OF r] by (simp add: p u' c' image_of_row_def)
qed

lemma first_content_Inr:
  "first_content g = Inr pc \<Longrightarrow> pc = group_content (columns g) (rows g)"
  by (auto simp: first_content_def group_content_def split: if_splits list.splits dest: row_get_Inr)

lemma grouped_prompts_loop_Inr:
  "grouped_prompts_loop gs acc = Inr ps \<Longrightarrow>
   ps = fold (\<lambda>(t, g) d. dict_set d (of_cell t) (snd (group_of (columns g) t (rows g)))) gs acc"
proof (induction gs arbitrary: acc)
  case Nil
  then show ?case by simp
next
  case (Cons p gs)
  obtain t g where p: "p = (t, g)" by (cases p)
  from Cons.prems p obtain pc imgs where
    f: "first_content g = Inr pc"
    and i: "iterrows_loop (columns g) pc (rows g) [] = Inr imgs"
    and r: "grouped_prompts_loop gs
              (dict_set acc (of_cell t)
                 (PDict [(PStr ''title'', of_cell t), (PStr ''content'', pc),
                         (PStr ''images'', PList imgs)])) = Inr ps"
    by (auto split: sum.splits)
  have pc: "pc = group_content (columns g) (rows g)" using f by (rule first_content_Inr)
  have imgs: "imgs = map (image_of_row (columns g) pc) (rows g)"
    using iterrows_loop_Inr [OF i] by simp
  show ?case using Cons.IH [OF r] by (simp add: p pc imgs group_of_def)
qed

lemma groupby_Inr:
  assumes "groupby df name = Inr gs"
  shows "gs = map (\<lambda>k. (k, df\<lparr>rows := rows_with (columns df) name k (rows df)\<rparr>))
            (keys_of (columns df) name (rows df))"
proof -
  from assms obtain j where "column_index (columns df) name = Inr j"
    by (auto simp: groupby_def split: sum.splits)
  from groupby_closed [OF this] assms show ?thesis by simp
qed

lemma fold_dict_set_fresh:
  "distinct (map K xs) \<Longrightarrow> K ` set xs \<inter> fst ` set acc = {} \<Longrightarrow>
   fold (\<lambda>x d. dict_set d (K x) (V x)) xs acc = acc @ map (\<lambda>x. (K x, V x)) xs"
proof (induction xs arbitrary: acc)
  case Nil
  then show ?case by simp
next
  case (Cons x xs)
  have k: "K x \<notin> fst ` set acc" using Cons.prems(2) by auto
  have d: "distinct (map K xs)" using Cons.prems(1) by simp
  have i: "K ` set xs \<inter> fst ` set (acc @ [(K x, V x)]) = {}"
    using Cons.prems by auto
  show ?case
    using Cons.IH [OF d i] by (simp add: dict_set_append [OF k])
qed


lemma dict_set_subset: "set (dict_set d k v) \<subseteq> insert (k, v) (set d)"
  by (induction d) (auto split: if_splits)


lemma fold_dict_set_entries:
  "(k, v) \<in> set (fold (\<lambda>x d. dict_set d (K x) (V x)) xs acc) \<Longrightarrow>
   (k, v) \<in> set acc \<or> (\<exists>x\<in>set xs. k = K x \<and> v = V x)"
proof (induction xs arbitrary: acc)
  case Nil
  then show ?case by simp
next
  case (Cons x xs)
  from Cons.IH [of "dict_set acc (K x) (V x)"] Cons.prems
  have "(k, v) \<in> set (dict_set acc (K x) (V x)) \<or> (\<exists>x\<in>set xs. k = K x \<and> v = V x)"
    by simp
  then show ?case using dict_set_subset [of acc "K x" "V x"] by auto
qed

lemma prompts_Inr:
  assumes "groupby ug ''title'' = Inr gs" and "grouped_prompts_loop gs [] = Inr ps"
  shows "ps = map (\<lambda>title. group_of (columns ug) title (rows_with (columns ug) ''title'' title (rows ug)))
              (keys_of (columns ug) ''title'' (rows ug))"
proof -
  let ?ks = "keys_of (columns ug) ''title'' (rows ug)"
  let ?V = "\<lambda>t. snd (group_of (columns ug) t (rows_with (columns ug) ''title'' t (rows ug)))"
  have gs: "gs = map (\<lambda>k. (k, ug\<lparr>rows := rows_with (columns ug) ''title'' k (rows ug)\<rparr>)) ?ks"
    using assms(1) by (rule groupby_Inr)
  have "ps = fold (\<lambda>(t, g) d. dict_set d (of_cell t) (snd (group_of (columns g) t (rows g)))) gs []"
    using assms(2) by (rule grouped_prompts_loop_Inr)
  also have "\<dots> = fold (\<lambda>t d. dict_set d (of_cell t) (?V t)) ?ks []"
    by (simp add: gs fold_map comp_def)
  also have "\<dots> = [] @ map (\<lambda>t. (of_cell t, ?V t)) ?ks"
    by (rule fold_dict_set_fresh)
       (simp_all add: distinct_map keys_of_distinct inj_on_def of_cell_inj)
  finally show ?thesis by (simp add: group_of_def)
qed

lemma grouped_users_loop_Inr:
  "grouped_users_loop gs acc = Inr us \<Longrightarrow>
   us = fold (\<lambda>(u, g) d. dict_set d (PStr (py_str u)) (snd (user_of (columns g) u (rows g)))) gs acc"
proof (induction gs arbitrary: acc)
  case Nil
  then show ?case by simp
next
  case (Cons p gs)
  obtain u g where p: "p = (u, g)" by (cases p)
  from Cons.prems p obtain pgs ps where
    pg: "groupby g ''title'' = Inr pgs"
    and pl: "grouped_prompts_loop pgs [] = Inr ps"
    and r: "grouped_users_loop gs
              (dict_set acc (PStr (py_str u))
                 (PDict [(PStr ''userId'', PStr (py_str u)), (PStr ''prompts'', PDict ps)])) = Inr us"
    by (auto split: sum.splits)
  show ?case using Cons.IH [OF r] by (simp add: p prompts_Inr [OF pg pl] user_of_def)
qed

lemma transform_to_hierarchy_Inr:
  assumes "transform_to_hierarchy df = Inr h"
  shows "h = PDict (fold (\<lambda>u d. dict_set d (PStr (py_str u))
                (snd (user_of (columns df) u (rows_with (columns df) ''userId'' u (rows df)))))
              (keys_of (columns df) ''userId'' (rows df)) [])"
proof -
  from assms obtain gs us where g: "groupby df ''userId'' = Inr gs"
    and l: "grouped_users_loop gs [] = Inr us" and h: "h = PDict us"
    by (auto simp: transform_to_hierarchy_def split: sum.splits)
  have gs: "gs = map (\<lambda>k. (k, df\<lparr>rows := rows_with (columns df) ''userId'' k (rows df)\<rparr>))
                   (keys_of (columns df) ''userId'' (rows df))"
    using g by (rule groupby_Inr)
  show ?thesis
    using grouped_users_loop_Inr [OF l] by (simp add: h gs fold_map comp_def)
qed

lemma prompts_of_user_of:
  "prompts_of (snd (user_of cols u rs)) =
     map (\<lambda>title. group_of cols title (rows_with cols ''title'' title rs)) (keys_of cols ''title'' rs)"
  by (simp add: user_of_def prompts_of_def field_def dict_get_def)

lemma images_of_group_of:
  "images_of (snd (group_of cols t rs)) = map (image_of_row cols (group_content cols rs)) rs"
  by (simp add: group_of_def images_of_def field_def dict_get_def)

lemma field_group_content:
  "field (snd (group_of cols t rs)) ''content'' d = group_content cols rs"
  by (simp add: group_of_def field_def dict_get_def)


lemma dict_keys_user_of: "dict_keys (snd (user_of cols u rs)) = [PStr ''userId'', PStr ''prompts'']"
  by (simp add: user_of_def dict_keys_def)

lemma dict_keys_group_of:
  "dict_keys (snd (group_of cols t rs)) = [PStr ''title'', PStr ''content'', PStr ''images'']"
  by (simp add: group_of_def dict_keys_def)

lemma dict_keys_image_of_row:
  "dict_keys (image_of_row cols pc p) = [PStr ''url'', PStr ''content'', PStr ''original_row_index'']"
  by (cases p) (simp add: image_of_row_def dict_keys_def)

lemma field_image_of_row:
  "field (image_of_row cols pc (idx, r)) ''url'' d = of_cell (col cols ''url'' r)"
  "field (image_of_row cols pc (idx, r)) ''content'' d =
     (if ''content'' \<in> set cols then of_cell (col cols ''content'' r) else pc)"
  "field (image_of_row cols pc (idx, r)) ''original_row_index'' d = PInt idx"
  "field (image_of_row cols pc (idx, r)) ''is_defective'' d = d"
  "field (image_of_row cols pc (idx, r)) ''review_comment'' d = d"
  by (simp_all add: image_of_row_def field_def dict_get_def)

lemma is_dict_image_of_row: "is_dict (image_of_row cols pc p)"
  by (cases p) (simp add: image_of_row_def)

lemma wf_prompt_snd_group_of: "wf_prompt (k, snd (group_of cols t rs))"
proof -
  have a: "is_dict (snd (group_of cols t rs))" by (simp add: group_of_def)
  have b: "is_list (field (snd (group_of cols t rs)) ''images'' (PList []))"
    by (simp add: group_of_def field_def dict_get_def)
  have c: "list_all is_dict (images_of (snd (group_of cols t rs)))"
    by (simp add: images_of_group_of list_all_iff is_dict_image_of_row)
  show ?thesis using a b c by (simp add: wf_prompt_def)
qed

lemma wf_prompt_group_of: "wf_prompt (group_of cols t rs)"
  using wf_prompt_snd_group_of [of "fst (group_of cols t rs)" cols t rs] by simp

lemma wf_user_user_of: "wf_user (k, snd (user_of cols u rs))"
proof -
  have a: "is_dict (snd (user_of cols u rs))" by (simp add: user_of_def)
  have b: "is_dict (field (snd (user_of cols u rs)) ''prompts'' (PDict []))"
    by (simp add: user_of_def field_def dict_get_def)
  have c: "list_all wf_prompt (prompts_of (snd (user_of cols u rs)))"
    by (simp add: prompts_of_user_of list_all_iff wf_prompt_group_of)
  show ?thesis using a b c by (simp add: wf_user_def)
qed

lemma items_of_iff:
  "(uid, t, g, img) \<in> set (items_of h) \<longleftrightarrow>
     (\<exists>user. (uid, user) \<in> set (users_of h) \<and> (t, g) \<in> set (prompts_of user)
        \<and> img \<in> set (images_of g))"
  by (fastforce simp: items_of_def user_items_def prompt_items_def)

lemma built_users:
  assumes "transform_to_hierarchy df = Inr h" and "(k, user) \<in> set (users_of h)"
  shows "\<exists>u\<in>set (keys_of (columns df) ''userId'' (rows df)).
           k = PStr (py_str u)
           \<and> user = snd (user_of (columns df) u (rows_with (columns df) ''userId'' u (rows df)))"
  using assms(2) fold_dict_set_entries [of k user _ _ _ "[]"]
  unfolding transform_to_hierarchy_Inr [OF assms(1)] users_of_def by auto


lemma built_is_dict: "transform_to_hierarchy df = Inr h \<Longrightarrow> is_dict h"
  by (auto simp: transform_to_hierarchy_def split: sum.splits)

lemma built_wf:
  assumes "transform_to_hierarchy df = Inr h"
  shows "wf_hierarchy h"
  unfolding wf_hierarchy_def list_all_iff
  using built_is_dict [OF assms] built_users [OF assms] wf_user_user_of by fastforce

lemma rows_with_subset: "set (rows_with cols name k rs) \<subseteq> set rs"
  by (auto simp: rows_with_def)

lemma built_items:
  assumes "transform_to_hierarchy df = Inr h" and "(uid, t, g, img) \<in> set (items_of h)"
  shows "\<exists>u\<in>set (keys_of (columns df) ''userId'' (rows df)).
         \<exists>rs. set rs \<subseteq> set (rows df) \<and> uid = PStr (py_str u)
           \<and> (\<exists>title. g = snd (group_of (columns df) title rs))
           \<and> (\<exists>p\<in>set rs. img = image_of_row (columns df) (group_content (columns df) rs) p)"
proof -
  from assms(2) obtain user where u: "(uid, user) \<in> set (users_of h)"
    and p: "(t, g) \<in> set (prompts_of user)" and i: "img \<in> set (images_of g)"
    unfolding items_of_iff by blast
  from built_users [OF assms(1) u] obtain k where k: "k \<in> set (keys_of (columns df) ''userId'' (rows df))"
    and uid: "uid = PStr (py_str k)"
    and user: "user = snd (user_of (columns df) k (rows_with (columns df) ''userId'' k (rows df)))"
    by auto
  let ?R = "rows_with (columns df) ''userId'' k (rows df)"
  from p obtain title where "(t, g) = group_of (columns df) title (rows_with (columns df) ''title'' title ?R)"
    by (auto simp: user prompts_of_user_of)
  then have g: "g = snd (group_of (columns df) title (rows_with (columns df) ''title'' title ?R))"
    by (metis snd_conv)
  let ?rs = "rows_with (columns df) ''title'' title ?R"
  have sub: "set ?rs \<subseteq> set (rows df)" using rows_with_subset by blast
  from i obtain q where "q \<in> set ?rs" and "img = image_of_row (columns df) (group_content (columns df) ?rs) q"
    by (auto simp: g images_of_group_of)
  then show ?thesis using k uid g sub by blast
qed

section \<open>The hierarchy as export_file receives it\<close>
















































section \<open>Field names, user keys and item content of the built hierarchy\<close>

text \<open>
  Claim C9, as amended. In the hierarchy that a successful run returns, a user holds
  exactly \<^verbatim>\<open>userId\<close> and \<^verbatim>\<open>prompts\<close>, a prompt holds exactly \<^verbatim>\<open>title\<close>, \<^verbatim>\<open>content\<close>
  and \<^verbatim>\<open>images\<close>, and an image holds exactly \<^verbatim>\<open>url\<close>, \<^verbatim>\<open>content\<close> and
  \<^verbatim>\<open>original_row_index\<close>: three fields, not two.
\<close>

theorem built_field_names:
  assumes "transform_to_hierarchy df = Inr h"
  shows "is_dict h \<and>
    (\<forall>(k, user)\<in>set (users_of h).
       dict_keys user = [PStr ''userId'', PStr ''prompts''] \<and>
       (\<forall>(t, g)\<in>set (prompts_of user).
          dict_keys g = [PStr ''title'', PStr ''content'', PStr ''images''] \<and>
          (\<forall>img\<in>set (images_of g).
             dict_keys img = [PStr ''url'', PStr ''content'', PStr ''original_row_index''])))"
proof (intro conjI ballI, goal_cases)
  case 1
  show ?case by (rule built_is_dict [OF assms])
next
  case (2 x)
  obtain k user where x: "x = (k, user)" by (cases x)
  from built_users [OF assms] 2 x obtain u rs where user: "user = snd (user_of (columns df) u rs)"
    by blast
  have a: "dict_keys user = [PStr ''userId'', PStr ''prompts'']"
    by (simp add: user dict_keys_user_of)
  have b: "dict_keys g = [PStr ''title'', PStr ''content'', PStr ''images''] \<and>
          (\<forall>img\<in>set (images_of g).
             dict_keys img = [PStr ''url'', PStr ''content'', PStr ''original_row_index''])"
    if m: "(t, g) \<in> set (prompts_of user)" for t g
  proof -
    from m obtain title rs' where "(t, g) = group_of (columns df) title rs'"
      by (auto simp: user prompts_of_user_of)
    then have g: "g = snd (group_of (columns df) title rs')" by (metis snd_conv)
    show ?thesis
      by (auto simp: g dict_keys_group_of images_of_group_of dict_keys_image_of_row)
  qed
  show ?case using a b by (auto simp: x)
qed

theorem built_field_names_counterexample:
  "transform_to_hierarchy content_example =
     Inr (PDict
       [(PStr ''u1'',
         PDict
          [(PStr ''userId'', PStr ''u1''),
           (PStr ''prompts'',
            PDict
             [(PStr ''T1'',
               PDict
                [(PStr ''title'', PStr ''T1''),
                 (PStr ''content'', PStr ''A''),
                 (PStr ''images'',
                  PList
                   [PDict
                     [(PStr ''url'', PStr ''http://a''),
                      (PStr ''content'', PStr ''A''),
                      (PStr ''original_row_index'', PInt 0)],
                    PDict
                     [(PStr ''url'', PStr ''http://b''),
                      (PStr ''content'', PStr []),
                      (PStr ''original_row_index'', PInt 1)]])])])])])"
  by code_simp

theorem built_field_names_witness:
  "transform_to_hierarchy content_example = Inr (hierarchy_of content_example)
   \<and> dict_keys (hd (images_of (snd (hd (prompts_of (snd (hd (users_of (hierarchy_of content_example))))))))) =
       [PStr ''url'', PStr ''content'', PStr ''original_row_index'']"
proof -
  let ?h = "hierarchy_of content_example"
  let ?u = "hd (users_of ?h)"
  let ?p = "hd (prompts_of (snd ?u))"
  let ?i = "hd (images_of (snd ?p))"
  have h: "transform_to_hierarchy content_example = Inr ?h" by code_simp
  have mu: "(fst ?u, snd ?u) \<in> set (users_of ?h)" by code_simp
  have mp: "(fst ?p, snd ?p) \<in> set (prompts_of (snd ?u))" by code_simp
  have mi: "?i \<in> set (images_of (snd ?p))" by code_simp
  from built_field_names [OF h] mu mp mi
  have "dict_keys ?i = [PStr ''url'', PStr ''content'', PStr ''original_row_index'']"
    by fast
  with h show ?thesis by (rule conjI)
qed



text \<open>
  Claim C3, as amended. Every Item of the hierarchy comes from a row of the table and
  holds the index label and the url of that row; its content is the content cell of that
  same row whenever the table has a content column, also when that cell is the empty
  text. The content of the Group is used for an Item only when the table has no content
  column.
\<close>

theorem built_item_content:
  assumes "transform_to_hierarchy df = Inr h"
  shows "\<forall>(uid, t, g, img)\<in>set (items_of h). \<exists>(idx, r)\<in>set (rows df).
     field img ''original_row_index'' PNone = PInt idx
     \<and> field img ''url'' PNone = of_cell (col (columns df) ''url'' r)
     \<and> field img ''content'' PNone =
         (if ''content'' \<in> set (columns df) then of_cell (col (columns df) ''content'' r)
          else field g ''content'' (PStr []))"
proof (intro ballI)
  fix x assume x: "x \<in> set (items_of h)"
  obtain uid t g img where xe: "x = (uid, t, g, img)" by (cases x)
  from built_items [OF assms] x xe obtain rs title p where
    sub: "set rs \<subseteq> set (rows df)" and g: "g = snd (group_of (columns df) title rs)"
    and p: "p \<in> set rs" and img: "img = image_of_row (columns df) (group_content (columns df) rs) p"
    by blast
  obtain idx r where pe: "p = (idx, r)" by (cases p)
  have "(idx, r) \<in> set (rows df)" using p sub pe by auto
  moreover have "field img ''original_row_index'' PNone = PInt idx
     \<and> field img ''url'' PNone = of_cell (col (columns df) ''url'' r)
     \<and> field img ''content'' PNone =
         (if ''content'' \<in> set (columns df) then of_cell (col (columns df) ''content'' r)
          else field g ''content'' (PStr []))"
    by (simp add: img pe g field_image_of_row field_group_content)
  ultimately show "case x of (uid, t, g, img) \<Rightarrow> \<exists>(idx, r)\<in>set (rows df).
     field img ''original_row_index'' PNone = PInt idx
     \<and> field img ''url'' PNone = of_cell (col (columns df) ''url'' r)
     \<and> field img ''content'' PNone =
         (if ''content'' \<in> set (columns df) then of_cell (col (columns df) ''content'' r)
          else field g ''content'' (PStr []))"
    unfolding xe by (simp only: prod.case) (rule bexI [of _ "(idx, r)"], simp_all)
qed

theorem built_item_content_counterexample:
  "transform_to_hierarchy content_example = Inr (hierarchy_of content_example)
   \<and> map (group_field ''content'') (items_of (hierarchy_of content_example)) = [PStr ''A'', PStr ''A'']
   \<and> map (item_field ''url'') (items_of (hierarchy_of content_example)) = [PStr ''http://a'', PStr ''http://b'']
   \<and> map (item_field ''content'') (items_of (hierarchy_of content_example)) = [PStr ''A'', PStr []]"
  by code_simp

theorem built_item_content_witness:
  "transform_to_hierarchy content_example = Inr (hierarchy_of content_example)
   \<and> item_field ''original_row_index'' (items_of (hierarchy_of content_example) ! 1) = PInt 1
   \<and> item_field ''content'' (items_of (hierarchy_of content_example) ! 1) = PStr []"
proof -
  let ?h = "hierarchy_of content_example"
  let ?x = "items_of ?h ! 1"
  obtain uid t g img where x: "?x = (uid, t, g, img)" by (cases ?x)
  have h: "transform_to_hierarchy content_example = Inr ?h" by code_simp
  have "?x \<in> set (items_of ?h)" by code_simp
  then have m: "(uid, t, g, img) \<in> set (items_of ?h)" by (simp only: x)
  have i: "item_field ''original_row_index'' ?x = PInt 1" by code_simp
  have i': "field img ''original_row_index'' PNone = PInt 1"
    using i unfolding item_field_def x prod.case .
  have c: "''content'' \<in> set (columns content_example)" by code_simp
  have rows: "rows content_example =
      [(0, [StrV ''u1'', StrV ''http://a'', StrV ''T1'', StrV ''A'']),
       (1, [StrV ''u1'', StrV ''http://b'', StrV ''T1'', StrV []])]"
    by (simp add: content_example_def)
  have c1: "col (columns content_example) ''content'' [StrV ''u1'', StrV ''http://b'', StrV ''T1'', StrV []] = StrV []"
    by code_simp
  from built_item_content [OF h] m
  have "\<exists>(idx, r)\<in>set (rows content_example).
     field img ''original_row_index'' PNone = PInt idx
     \<and> field img ''url'' PNone = of_cell (col (columns content_example) ''url'' r)
     \<and> field img ''content'' PNone = of_cell (col (columns content_example) ''content'' r)"
    using c by fastforce
  then have "field img ''content'' PNone = PStr []"
    using i' c1 by (auto simp: rows)
  then have "item_field ''content'' ?x = PStr []"
    unfolding item_field_def x prod.case .
  with h i show ?thesis by (intro conjI)
qed

section \<open>Traversal order and placement of rows\<close>

lemma positions_bound: "j \<in> set (positions name cols n) \<Longrightarrow> n \<le> j \<and> j < n + length cols"
  by (induction cols arbitrary: n) (fastforce split: if_splits)+

lemma column_index_bound: "column_index cols name = Inr j \<Longrightarrow> j < length cols"
proof -
  assume "column_index cols name = Inr j"
  then have "positions name cols 0 = [j]"
    by (auto simp: column_index_def split: list.splits)
  then have "j \<in> set (positions name cols 0)" by simp
  from positions_bound [OF this] show ?thesis by simp
qed

lemma has_column_index: "has_column df name \<Longrightarrow> \<exists>j. column_index (columns df) name = Inr j"
  by (auto simp: has_column_def split: sum.splits)

lemma normalized_columns:
  assumes "normalized df"
  shows "\<exists>ju. column_index (columns df) ''userId'' = Inr ju"
    and "\<exists>jt. column_index (columns df) ''title'' = Inr jt"
    and "\<exists>jl. column_index (columns df) ''url'' = Inr jl"
    and "\<exists>jc. column_index (columns df) ''content'' = Inr jc"
  using assms by (simp_all add: normalized_def required_def has_column_index)

lemma normalized_col:
  assumes "normalized df" and "column_index (columns df) name = Inr j" and "(i, r) \<in> set (rows df)"
  shows "col (columns df) name r \<noteq> NaN"
proof -
  from assms(1,3) have len: "length r = length (columns df)" and nn: "NaN \<notin> set r"
    by (auto simp: normalized_def rectangular_def list_all_iff)
  have "j < length r" using column_index_bound [OF assms(2)] len by simp
  then have "cell_at r j \<in> set r" by (simp add: cell_at_def)
  then show ?thesis using nn by (metis col_index [OF assms(2)])
qed

lemma keys_of_no_nan:
  assumes "\<forall>p\<in>set rs. (case p of (i, r) \<Rightarrow> col cols name r) \<noteq> NaN"
  shows "keys_of cols name rs = sort (remdups (map (\<lambda>(i, r). col cols name r) rs))"
proof -
  have "filter (\<lambda>k. k \<noteq> NaN) (map (\<lambda>(i, r). col cols name r) rs) = map (\<lambda>(i, r). col cols name r) rs"
    using assms by (auto simp: filter_id_conv)
  then show ?thesis by (simp add: keys_of_def)
qed

lemma rows_with_blocks:
  assumes "\<forall>p\<in>set rs. (case p of (i, r) \<Rightarrow> col cols name r) \<noteq> NaN"
  shows "concat (map (\<lambda>k. rows_with cols name k rs) (keys_of cols name rs))
         = sort_key (\<lambda>(i, r). col cols name r) rs"
proof -
  have e: "(\<lambda>(i, r). col cols name r = k) = (\<lambda>x. (case x of (i, r) \<Rightarrow> col cols name r) = k)" for k
    by (auto simp: fun_eq_iff)
  show ?thesis
    unfolding keys_of_no_nan [OF assms] rows_with_def e
    by (rule blocks_sort_key)
qed

lemma sort_remdups_set: 
  fixes xs ys :: "'k::linorder list"
  shows "set xs = set ys \<Longrightarrow> sort (remdups xs) = sort (remdups ys)"
  by (rule sorted_distinct_set_unique) simp_all

lemma keys_of_cong_set:
  assumes "set rs = set rs'"
  shows "keys_of cols name rs = keys_of cols name rs'"
  unfolding keys_of_def by (rule sort_remdups_set) (simp add: assms)

lemma rows_with_sort_key:
  "rows_with cols name k (sort_key f rs) = sort_key f (rows_with cols name k rs)"
  by (simp add: rows_with_def filter_sort)

lemma traversal_sorted:
  assumes u: "\<forall>p\<in>set rs. (case p of (i, r) \<Rightarrow> col cols ''userId'' r) \<noteq> NaN"
    and t: "\<forall>p\<in>set rs. (case p of (i, r) \<Rightarrow> col cols ''title'' r) \<noteq> NaN"
  shows "concat (map (\<lambda>u. concat (map (\<lambda>t. rows_with cols ''title'' t (rows_with cols ''userId'' u rs))
                                    (keys_of cols ''title'' (rows_with cols ''userId'' u rs))))
                   (keys_of cols ''userId'' rs))
         = sort_key (\<lambda>(i, r). col cols ''userId'' r) (sort_key (\<lambda>(i, r). col cols ''title'' r) rs)"
proof -
  let ?tk = "\<lambda>(i, r). col cols ''title'' r"
  let ?uk = "\<lambda>(i, r). col cols ''userId'' r"
  have inner: "concat (map (\<lambda>t. rows_with cols ''title'' t (rows_with cols ''userId'' k rs))
                        (keys_of cols ''title'' (rows_with cols ''userId'' k rs)))
        = rows_with cols ''userId'' k (sort_key ?tk rs)" for k
  proof -
    have "\<forall>p\<in>set (rows_with cols ''userId'' k rs). (case p of (i, r) \<Rightarrow> col cols ''title'' r) \<noteq> NaN"
      using t rows_with_subset [of cols "''userId''" k rs] by blast
    from rows_with_blocks [OF this] show ?thesis by (simp add: rows_with_sort_key)
  qed
  have u': "\<forall>p\<in>set (sort_key ?tk rs). (case p of (i, r) \<Rightarrow> col cols ''userId'' r) \<noteq> NaN"
    using u by simp
  have k: "keys_of cols ''userId'' rs = keys_of cols ''userId'' (sort_key ?tk rs)"
    by (rule keys_of_cong_set) simp
  show ?thesis
    unfolding inner k by (rule rows_with_blocks [OF u'])
qed

lemma group_of_pair: "group_of cols t rs = (of_cell t, snd (group_of cols t rs))"
  by (simp add: group_of_def)

lemma user_of_pair: "user_of cols u rs = (PStr (py_str u), snd (user_of cols u rs))"
  by (simp add: user_of_def)

lemma prompt_items_group_of:
  "prompt_items uid (group_of cols t rs) =
     map (\<lambda>p. (uid, of_cell t, snd (group_of cols t rs), image_of_row cols (group_content cols rs) p)) rs"
proof -
  have "prompt_items uid (of_cell t, snd (group_of cols t rs)) =
     map (\<lambda>p. (uid, of_cell t, snd (group_of cols t rs), image_of_row cols (group_content cols rs) p)) rs"
    by (simp add: prompt_items_def images_of_group_of comp_def)
  then show ?thesis using group_of_pair [of cols t rs] by simp
qed

lemma user_items_user_of:
  "user_items (user_of cols u rs) =
     concat (map (\<lambda>t. prompt_items (PStr (py_str u)) (group_of cols t (rows_with cols ''title'' t rs)))
               (keys_of cols ''title'' rs))"
proof -
  have "user_items (PStr (py_str u), snd (user_of cols u rs)) =
     concat (map (\<lambda>t. prompt_items (PStr (py_str u)) (group_of cols t (rows_with cols ''title'' t rs)))
               (keys_of cols ''title'' rs))"
    by (simp add: user_items_def prompts_of_user_of comp_def)
  then show ?thesis using user_of_pair [of cols u rs] by simp
qed

lemma items_of_hierarchy_of:
  "items_of (hierarchy_of df) =
     concat (map (\<lambda>u. user_items (user_of (columns df) u (rows_with (columns df) ''userId'' u (rows df))))
               (keys_of (columns df) ''userId'' (rows df)))"
  by (simp add: items_of_def hierarchy_of_def users_of_def comp_def)

lemma length_items_of_hierarchy_of:
  "length (items_of (hierarchy_of df)) =
     length (concat (map (\<lambda>u. concat (map (\<lambda>t. rows_with (columns df) ''title'' t (rows_with (columns df) ''userId'' u (rows df)))
                                    (keys_of (columns df) ''title'' (rows_with (columns df) ''userId'' u (rows df)))))
                   (keys_of (columns df) ''userId'' (rows df))))"
  by (simp add: items_of_hierarchy_of user_items_user_of prompt_items_group_of
        length_concat comp_def)

lemma map_of_keyed:
  "distinct (map K ks) \<Longrightarrow> u \<in> set ks \<Longrightarrow> map_of (map (\<lambda>x. (K x, V x)) ks) (K u) = Some (V u)"
  by (induction ks) (auto simp: rev_image_eqI)

lemma map_of_user:
  assumes "distinct (map py_str (keys_of (columns df) ''userId'' (rows df)))"
    and "u \<in> set (keys_of (columns df) ''userId'' (rows df))"
  shows "map_of (users_of (hierarchy_of df)) (PStr (py_str u)) =
           Some (snd (user_of (columns df) u (rows_with (columns df) ''userId'' u (rows df))))"
proof -
  let ?K = "\<lambda>u. PStr (py_str u)"
  let ?V = "\<lambda>u. snd (user_of (columns df) u (rows_with (columns df) ''userId'' u (rows df)))"
  have d: "distinct (map ?K (keys_of (columns df) ''userId'' (rows df)))"
    using assms(1) by (simp add: distinct_map inj_on_def)
  have "users_of (hierarchy_of df) = map (\<lambda>x. (?K x, ?V x)) (keys_of (columns df) ''userId'' (rows df))"
    by (simp add: hierarchy_of_def users_of_def user_of_def)
  then show ?thesis using map_of_keyed [OF d assms(2), of ?V] by simp
qed

lemma map_of_group:
  assumes "t \<in> set (keys_of cols ''title'' rs)"
  shows "map_of (prompts_of (snd (user_of cols u rs))) (of_cell t) =
           Some (snd (group_of cols t (rows_with cols ''title'' t rs)))"
proof -
  let ?V = "\<lambda>t. snd (group_of cols t (rows_with cols ''title'' t rs))"
  have d: "distinct (map of_cell (keys_of cols ''title'' rs))"
    by (simp add: distinct_map keys_of_distinct inj_on_def of_cell_inj)
  have "prompts_of (snd (user_of cols u rs)) = map (\<lambda>x. (of_cell x, ?V x)) (keys_of cols ''title'' rs)"
    by (simp add: prompts_of_user_of group_of_def)
  then show ?thesis using map_of_keyed [OF d assms, of ?V] by simp
qed

lemma rows_with_both:
  "rows_with cols ''title'' t (rows_with cols ''userId'' u rs) =
     filter (\<lambda>(idx, r). col cols ''userId'' r = u \<and> col cols ''title'' r = t) rs"
  by (auto simp: rows_with_def intro: filter_cong)

lemma user_titles_hierarchy_of:
  assumes "distinct (map py_str (keys_of (columns df) ''userId'' (rows df)))"
    and "u \<in> set (keys_of (columns df) ''userId'' (rows df))"
  shows "user_titles (hierarchy_of df) (PStr (py_str u)) =
           map of_cell (keys_of (columns df) ''title'' (rows_with (columns df) ''userId'' u (rows df)))"
  by (simp add: user_titles_def map_of_user [OF assms] prompts_of_user_of comp_def group_of_def)

lemma group_row_labels_hierarchy_of:
  assumes "distinct (map py_str (keys_of (columns df) ''userId'' (rows df)))"
    and "u \<in> set (keys_of (columns df) ''userId'' (rows df))"
    and "t \<in> set (keys_of (columns df) ''title'' (rows_with (columns df) ''userId'' u (rows df)))"
  shows "group_row_labels (hierarchy_of df) (PStr (py_str u)) (of_cell t) =
           map (\<lambda>(idx, r). PInt idx)
             (filter (\<lambda>(idx, r). col (columns df) ''userId'' r = u \<and> col (columns df) ''title'' r = t) (rows df))"
  by (simp add: group_row_labels_def map_of_user [OF assms(1,2)] map_of_group [OF assms(3)]
        images_of_group_of rows_with_both field_image_of_row)

lemma normalized_closed:
  assumes "normalized df" and "distinct (map py_str (keys_of (columns df) ''userId'' (rows df)))"
  shows "transform_to_hierarchy df = Inr (hierarchy_of df)"
proof -
  from normalized_columns [OF assms(1)] obtain ju jt jl jc where
    "column_index (columns df) ''userId'' = Inr ju" "column_index (columns df) ''title'' = Inr jt"
    "column_index (columns df) ''url'' = Inr jl" "column_index (columns df) ''content'' = Inr jc"
    by blast
  then show ?thesis
    using assms(2) by (intro transform_to_hierarchy_closed) simp_all
qed

lemma normalized_keys:
  assumes "normalized df" and "(idx, r) \<in> set (rows df)"
  shows "col (columns df) ''userId'' r \<in> set (keys_of (columns df) ''userId'' (rows df))"
    and "col (columns df) ''title'' r
           \<in> set (keys_of (columns df) ''title''
                  (rows_with (columns df) ''userId'' (col (columns df) ''userId'' r) (rows df)))"
proof -
  from normalized_columns [OF assms(1)] obtain ju jt where
    u: "column_index (columns df) ''userId'' = Inr ju" and t: "column_index (columns df) ''title'' = Inr jt"
    by blast
  have nu: "col (columns df) ''userId'' r \<noteq> NaN" by (rule normalized_col [OF assms(1) u assms(2)])
  have nt: "col (columns df) ''title'' r \<noteq> NaN" by (rule normalized_col [OF assms(1) t assms(2)])
  show "col (columns df) ''userId'' r \<in> set (keys_of (columns df) ''userId'' (rows df))"
    using nu assms(2) by (auto simp: keys_of_set)
  have "(idx, r) \<in> set (rows_with (columns df) ''userId'' (col (columns df) ''userId'' r) (rows df))"
    using assms(2) by (simp add: rows_with_def)
  then show "col (columns df) ''title'' r
           \<in> set (keys_of (columns df) ''title''
                  (rows_with (columns df) ''userId'' (col (columns df) ''userId'' r) (rows df)))"
    using nt by (auto simp: keys_of_set)
qed

text \<open>
  Claim C1, as amended. On a normalized table whose userId values have distinct
  renderings, the build succeeds, and it partitions by sorting, not by first appearance:
  the users are traversed in ascending order of their userId values, the titles of a user
  in ascending order of the distinct titles of that user's rows, and the rows of a Group
  are exactly the rows of the table that carry its userId and its title, in their order
  in the table. Every row carries the keys of such a Group.
\<close>

theorem build_groups_sorted:
  assumes "normalized df" and "distinct (map py_str (keys_of (columns df) ''userId'' (rows df)))"
  shows "transform_to_hierarchy df = Inr (hierarchy_of df)
    \<and> map fst (users_of (hierarchy_of df)) =
        map (\<lambda>u. PStr (py_str u)) (keys_of (columns df) ''userId'' (rows df))
    \<and> sorted (keys_of (columns df) ''userId'' (rows df))
    \<and> distinct (keys_of (columns df) ''userId'' (rows df))
    \<and> (\<forall>u\<in>set (keys_of (columns df) ''userId'' (rows df)).
         user_titles (hierarchy_of df) (PStr (py_str u)) =
           map of_cell (keys_of (columns df) ''title'' (rows_with (columns df) ''userId'' u (rows df)))
         \<and> sorted (keys_of (columns df) ''title'' (rows_with (columns df) ''userId'' u (rows df)))
         \<and> distinct (keys_of (columns df) ''title'' (rows_with (columns df) ''userId'' u (rows df)))
         \<and> (\<forall>t\<in>set (keys_of (columns df) ''title'' (rows_with (columns df) ''userId'' u (rows df))).
              group_row_labels (hierarchy_of df) (PStr (py_str u)) (of_cell t) =
                map (\<lambda>(idx, r). PInt idx)
                  (filter (\<lambda>(idx, r). col (columns df) ''userId'' r = u \<and> col (columns df) ''title'' r = t)
                     (rows df))))
    \<and> (\<forall>(idx, r)\<in>set (rows df).
         col (columns df) ''userId'' r \<in> set (keys_of (columns df) ''userId'' (rows df))
         \<and> col (columns df) ''title'' r
             \<in> set (keys_of (columns df) ''title''
                    (rows_with (columns df) ''userId'' (col (columns df) ''userId'' r) (rows df))))"
proof (intro conjI ballI)
  show "transform_to_hierarchy df = Inr (hierarchy_of df)"
    by (rule normalized_closed [OF assms])
  show "map fst (users_of (hierarchy_of df)) =
        map (\<lambda>u. PStr (py_str u)) (keys_of (columns df) ''userId'' (rows df))"
    by (simp add: hierarchy_of_def users_of_def user_of_def comp_def)
  show "sorted (keys_of (columns df) ''userId'' (rows df))" by (rule keys_of_sorted)
  show "distinct (keys_of (columns df) ''userId'' (rows df))" by (rule keys_of_distinct)
next
  fix u assume u: "u \<in> set (keys_of (columns df) ''userId'' (rows df))"
  show "user_titles (hierarchy_of df) (PStr (py_str u)) =
           map of_cell (keys_of (columns df) ''title'' (rows_with (columns df) ''userId'' u (rows df)))"
    by (rule user_titles_hierarchy_of [OF assms(2) u])
  show "sorted (keys_of (columns df) ''title'' (rows_with (columns df) ''userId'' u (rows df)))"
    by (rule keys_of_sorted)
  show "distinct (keys_of (columns df) ''title'' (rows_with (columns df) ''userId'' u (rows df)))"
    by (rule keys_of_distinct)
  fix t assume t: "t \<in> set (keys_of (columns df) ''title'' (rows_with (columns df) ''userId'' u (rows df)))"
  show "group_row_labels (hierarchy_of df) (PStr (py_str u)) (of_cell t) =
                map (\<lambda>(idx, r). PInt idx)
                  (filter (\<lambda>(idx, r). col (columns df) ''userId'' r = u \<and> col (columns df) ''title'' r = t)
                     (rows df))"
    by (rule group_row_labels_hierarchy_of [OF assms(2) u t])
next
  fix x assume x: "x \<in> set (rows df)"
  obtain idx r where xe: "x = (idx, r)" by (cases x)
  show "case x of (idx, r) \<Rightarrow>
         col (columns df) ''userId'' r \<in> set (keys_of (columns df) ''userId'' (rows df))
         \<and> col (columns df) ''title'' r
             \<in> set (keys_of (columns df) ''title''
                    (rows_with (columns df) ''userId'' (col (columns df) ''userId'' r) (rows df)))"
    using normalized_keys [OF assms(1), of idx r] x xe by simp
qed

theorem build_groups_sorted_counterexample:
  "normalized order_example
   \<and> transform_to_hierarchy order_example = Inr (hierarchy_of order_example)
   \<and> user_titles (hierarchy_of order_example) (PStr ''u1'') = [PStr ''a'', PStr ''b'']
   \<and> first_seen (map (col (columns order_example) ''title'')
        (map snd (rows_with (columns order_example) ''userId'' (StrV ''u1'') (rows order_example))))
       = [StrV ''b'', StrV ''a'']"
  by code_simp

theorem build_groups_sorted_witness:
  "normalized order_example
   \<and> group_row_labels (hierarchy_of order_example) (PStr ''u1'') (PStr ''a'') = [PInt 2]"
proof -
  let ?df = "order_example"
  have n: "normalized ?df" by code_simp
  have d: "distinct (map py_str (keys_of (columns ?df) ''userId'' (rows ?df)))" by code_simp
  have mu: "StrV ''u1'' \<in> set (keys_of (columns ?df) ''userId'' (rows ?df))" by code_simp
  have mt: "StrV ''a'' \<in> set (keys_of (columns ?df) ''title''
              (rows_with (columns ?df) ''userId'' (StrV ''u1'') (rows ?df)))" by code_simp
  have e: "map (\<lambda>(idx, r). PInt idx)
             (filter (\<lambda>(idx, r). col (columns ?df) ''userId'' r = StrV ''u1''
                               \<and> col (columns ?df) ''title'' r = StrV ''a'') (rows ?df)) = [PInt 2]"
    by code_simp
  from build_groups_sorted [OF n d] mu mt
  have "group_row_labels (hierarchy_of ?df) (PStr (py_str (StrV ''u1''))) (of_cell (StrV ''a'')) =
          map (\<lambda>(idx, r). PInt idx)
             (filter (\<lambda>(idx, r). col (columns ?df) ''userId'' r = StrV ''u1''
                               \<and> col (columns ?df) ''title'' r = StrV ''a'') (rows ?df))"
    by blast
  then have "group_row_labels (hierarchy_of ?df) (PStr ''u1'') (PStr ''a'') = [PInt 2]"
    unfolding e by simp
  with n show ?thesis by (rule conjI)
qed

lemma rows_clean_data: "rows (clean_data raw) = map (\<lambda>(i, r). (i, map fillna r)) (rows raw)"
  by (simp add: clean_data_def Let_def)

lemma fillna_not_nan: "fillna v \<noteq> NaN"
  by (cases v) (simp_all add: fillna_def)

lemma nan_not_in_fillna: "NaN \<notin> set (map fillna r)"
  by (induction r) (simp_all add: fillna_not_nan [THEN not_sym])

lemma clean_normalized:
  assumes "rectangular raw" and "list_all (has_column (clean_data raw)) required"
  shows "normalized (clean_data raw)"
proof -
  have len: "length (columns (clean_data raw)) = length (columns raw)"
    by (simp add: columns_clean_data fold_rename_length)
  have r: "rectangular (clean_data raw)"
    using assms(1) by (auto simp: rectangular_def list_all_iff rows_clean_data len)
  have n: "list_all (\<lambda>(i, r). NaN \<notin> set r) (rows (clean_data raw))"
    unfolding list_all_iff rows_clean_data
  proof
    fix x assume "x \<in> set (map (\<lambda>(i, r). (i, map fillna r)) (rows raw))"
    then obtain i r where "x = (i, map fillna r)" by auto
    then show "case x of (i, r) \<Rightarrow> NaN \<notin> set r"
      using nan_not_in_fillna [of r] by simp
  qed
  show ?thesis using assms(2) r n by (simp add: normalized_def)
qed

lemma col_fillna:
  assumes "column_index cols name = Inr j" and "length r = length cols"
  shows "col cols name (map fillna r) = fillna (col cols name r)"
proof -
  have "j < length r" using column_index_bound [OF assms(1)] assms(2) by simp
  then show ?thesis by (simp add: col_index [OF assms(1)] cell_at_def)
qed

lemma placed:
  assumes "normalized df" and "distinct (map py_str (keys_of (columns df) ''userId'' (rows df)))"
    and "(idx, r) \<in> set (rows df)"
  shows "PInt idx \<in> set (group_row_labels (hierarchy_of df)
           (PStr (py_str (col (columns df) ''userId'' r))) (of_cell (col (columns df) ''title'' r)))"
proof -
  let ?u = "col (columns df) ''userId'' r"
  let ?t = "col (columns df) ''title'' r"
  have "(idx, r) \<in> set (filter (\<lambda>(idx, r). col (columns df) ''userId'' r = ?u
                                   \<and> col (columns df) ''title'' r = ?t) (rows df))"
    using assms(3) by simp
  then have "(\<lambda>(idx, r). PInt idx) (idx, r) \<in> (\<lambda>(idx, r). PInt idx) `
                 set (filter (\<lambda>(idx, r). col (columns df) ''userId'' r = ?u
                                   \<and> col (columns df) ''title'' r = ?t) (rows df))"
    by (rule imageI)
  then have "PInt idx \<in> set (map (\<lambda>(idx, r). PInt idx)
                 (filter (\<lambda>(idx, r). col (columns df) ''userId'' r = ?u
                                   \<and> col (columns df) ''title'' r = ?t) (rows df)))"
    by (simp only: set_map prod.case)
  then show ?thesis
    using group_row_labels_hierarchy_of [OF assms(2) normalized_keys [OF assms(1,3)]] by simp
qed

lemma normalized_length_items:
  assumes "normalized df"
  shows "length (items_of (hierarchy_of df)) = length (rows df)"
proof -
  from normalized_columns [OF assms] obtain ju jt where
    u: "column_index (columns df) ''userId'' = Inr ju" and t: "column_index (columns df) ''title'' = Inr jt"
    by blast
  have nu: "\<forall>p\<in>set (rows df). (case p of (i, r) \<Rightarrow> col (columns df) ''userId'' r) \<noteq> NaN"
    using normalized_col [OF assms u] by auto
  have nt: "\<forall>p\<in>set (rows df). (case p of (i, r) \<Rightarrow> col (columns df) ''title'' r) \<noteq> NaN"
    using normalized_col [OF assms t] by auto
  show ?thesis
    unfolding length_items_of_hierarchy_of traversal_sorted [OF nu nt] by simp
qed

text \<open>
  What the build does where no two userId values share a rendering: on a table that
  \<^verbatim>\<open>clean_data\<close> has normalized and that has the four recognized columns, it raises no
  error and places every row exactly once, under the rendering of its userId and under
  its title; a userId or title that was missing has been filled with the empty text, so
  that its row stands under the empty key.
\<close>

lemma build_places_every_row:
  assumes "rectangular raw" and "list_all (has_column (clean_data raw)) required"
    and "distinct (map py_str (keys_of (columns (clean_data raw)) ''userId'' (rows (clean_data raw))))"
  shows "transform_to_hierarchy (clean_data raw) = Inr (hierarchy_of (clean_data raw))
    \<and> length (items_of (hierarchy_of (clean_data raw))) = length (rows raw)
    \<and> (\<forall>(idx, r)\<in>set (rows raw).
         PInt idx \<in> set (group_row_labels (hierarchy_of (clean_data raw))
           (PStr (py_str (fillna (col (columns (clean_data raw)) ''userId'' r))))
           (of_cell (fillna (col (columns (clean_data raw)) ''title'' r)))))
    \<and> py_str (fillna NaN) = [] \<and> of_cell (fillna NaN) = PStr []"
proof (intro conjI ballI)
  let ?df = "clean_data raw"
  have n: "normalized ?df" by (rule clean_normalized [OF assms(1,2)])
  show "transform_to_hierarchy ?df = Inr (hierarchy_of ?df)"
    by (rule normalized_closed [OF n assms(3)])
  show "length (items_of (hierarchy_of ?df)) = length (rows raw)"
    using normalized_length_items [OF n] by (simp add: rows_clean_data)
  show "py_str (fillna NaN) = []" by (simp add: fillna_def)
  show "of_cell (fillna NaN) = PStr []" by (simp add: fillna_def)
  fix x assume x: "x \<in> set (rows raw)"
  obtain idx r where xe: "x = (idx, r)" by (cases x)
  from normalized_columns [OF n] obtain ju jt where
    u: "column_index (columns ?df) ''userId'' = Inr ju" and t: "column_index (columns ?df) ''title'' = Inr jt"
    by blast
  have len: "length r = length (columns ?df)"
    using assms(1) x xe by (auto simp: rectangular_def list_all_iff columns_clean_data fold_rename_length)
  have m: "(idx, map fillna r) \<in> set (rows ?df)"
    using x xe by (force simp: rows_clean_data)
  from placed [OF n assms(3) m]
  show "case x of (idx, r) \<Rightarrow>
         PInt idx \<in> set (group_row_labels (hierarchy_of ?df)
           (PStr (py_str (fillna (col (columns ?df) ''userId'' r))))
           (of_cell (fillna (col (columns ?df) ''title'' r))))"
    by (simp add: xe col_fillna [OF u len] col_fillna [OF t len])
qed

text \<open>
  Claim C7. The claim, that every row of a normalized table is placed, fails on the code
  where two userId values share a rendering: the table below is normalized and has two
  rows, with the userId values 1 (an integer) and \<^verbatim>\<open>"1"\<close> (a text). They are two groups
  of \<^verbatim>\<open>groupby\<close>, and the assignment of line 62 for the second replaces the user stored
  for the first, so the hierarchy holds the row with index label 1 only.
\<close>

theorem build_loses_rows_on_key_collision:
  "normalized collision_example
   \<and> clean_data collision_example = collision_example
   \<and> length (rows collision_example) = 2
   \<and> transform_to_hierarchy collision_example =
       Inr (PDict
         [(PStr ''1'',
           PDict
            [(PStr ''userId'', PStr ''1''),
             (PStr ''prompts'',
              PDict
               [(PStr ''t'',
                 PDict
                  [(PStr ''title'', PStr ''t''),
                   (PStr ''content'', PStr ''q''),
                   (PStr ''images'',
                    PList
                     [PDict
                       [(PStr ''url'', PStr ''y''),
                        (PStr ''content'', PStr ''q''),
                        (PStr ''original_row_index'', PInt 1)]])])])])])"
  by code_simp

lemma build_places_every_row_example:
  "rectangular missing_example
   \<and> length (items_of (hierarchy_of (clean_data missing_example))) = 2
   \<and> PInt 0 \<in> set (group_row_labels (hierarchy_of (clean_data missing_example)) (PStr []) (PStr []))"
proof -
  let ?raw = "missing_example"
  have r: "rectangular ?raw" by code_simp
  have c: "list_all (has_column (clean_data ?raw)) required" by code_simp
  have d: "distinct (map py_str (keys_of (columns (clean_data ?raw)) ''userId'' (rows (clean_data ?raw))))"
    by code_simp
  have m: "(0, [NaN, StrV ''x'', NaN, StrV ''p'']) \<in> set (rows ?raw)" by code_simp
  have l: "length (rows ?raw) = 2" by code_simp
  have ku: "PStr (py_str (fillna (col (columns (clean_data ?raw)) ''userId'' [NaN, StrV ''x'', NaN, StrV ''p'']))) = PStr []"
    by code_simp
  have kt: "of_cell (fillna (col (columns (clean_data ?raw)) ''title'' [NaN, StrV ''x'', NaN, StrV ''p''])) = PStr []"
    by code_simp
  note t = build_places_every_row [OF r c d]
  from t have "length (items_of (hierarchy_of (clean_data ?raw))) = length (rows ?raw)"
    by (elim conjE)
  then have a: "length (items_of (hierarchy_of (clean_data ?raw))) = 2" by (simp only: l)
  from t have B: "\<forall>(idx, r)\<in>set (rows ?raw).
         PInt idx \<in> set (group_row_labels (hierarchy_of (clean_data ?raw))
           (PStr (py_str (fillna (col (columns (clean_data ?raw)) ''userId'' r))))
           (of_cell (fillna (col (columns (clean_data ?raw)) ''title'' r))))"
    by (elim conjE)
  from bspec [OF B m] have "PInt 0 \<in> set (group_row_labels (hierarchy_of (clean_data ?raw))
           (PStr (py_str (fillna (col (columns (clean_data ?raw)) ''userId'' [NaN, StrV ''x'', NaN, StrV ''p'']))))
           (of_cell (fillna (col (columns (clean_data ?raw)) ''title'' [NaN, StrV ''x'', NaN, StrV ''p'']))))"
    by (simp only: prod.case)
  then have b: "PInt 0 \<in> set (group_row_labels (hierarchy_of (clean_data ?raw)) (PStr []) (PStr []))"
    unfolding ku kt .
  from r a b show ?thesis by (intro conjI)
qed

section \<open>The round trip through upload, jsonify, request.json and export\<close>














end
